theory Spec2Isabelle
  imports Complex_Main "HOL-Library.Word"
begin

section \<open>Scalars, vectors and failures\<close>

text \<open>
  The tape is instantiated with \<open>Real = Gradient = double\<close> and \<open>Identifier = int\<close>.
  The arithmetic of the engine is addition and multiplication only; it is modelled in
  the field of real numbers. Identifiers are C++ \<open>int\<close>s, modelled as unbounded
  integers (no property below reaches 2^31 identifiers). \<open>Config::ArgumentSize\<close> is
  \<open>uint8_t\<close>, an 8-bit word; the positions into the data streams are \<open>size_t\<close>,
  64-bit words, so that \<open>-=\<close> wraps as it does in the source.
\<close>

type_synonym Real = real
type_synonym Gradient = real
type_synonym Identifier = int
type_synonym ArgumentSize = "8 word"
type_synonym size_t = "64 word"

text \<open>
  C++ does not check \<open>operator[]\<close>; an index outside the vector is undefined
  behaviour. The model makes it a failure. \<open>CODI_EXCEPTION\<close> aborts with a message.
\<close>

datatype error = OutOfBounds | Exception string

definition vectorGet :: "'a list \<Rightarrow> int \<Rightarrow> error + 'a" where
  "vectorGet xs i =
     (if 0 \<le> i \<and> i < int (length xs) then Inr (xs ! nat i) else Inl OutOfBounds)"

definition vectorSet :: "'a list \<Rightarrow> int \<Rightarrow> 'a \<Rightarrow> error + 'a list" where
  "vectorSet xs i v =
     (if 0 \<le> i \<and> i < int (length xs) then Inr (xs[nat i := v]) else Inl OutOfBounds)"

text \<open>\<open>std::vector::resize\<close>: cut, or fill up with value-initialised elements.\<close>

definition vectorResize :: "nat \<Rightarrow> 'a::zero list \<Rightarrow> 'a list" where
  "vectorResize k xs = take k xs @ replicate (k - length xs) 0"

section \<open>Configuration (config.h)\<close>

text \<open>
  The compile-time switches the modelled code reads, and \<open>Config::ChunkSize\<close> (a
  static variable). \<open>defaultConfig\<close> holds the values config.h gives them when no
  macro overrides them.
\<close>

record Config =
  ChunkSize :: nat
  CheckTapeActivity :: bool
  CheckZeroIndex :: bool
  IgnoreInvalidJacobies :: bool
  SkipZeroAdjointEvaluation :: bool

definition defaultConfig :: Config where
  "defaultConfig = \<lparr>ChunkSize = 2097152, CheckTapeActivity = True, CheckZeroIndex = True,
     IgnoreInvalidJacobies = False, SkipZeroAdjointEvaluation = True\<rparr>"

definition MaxArgumentSize :: nat where
  "MaxArgumentSize = 255"

definition StatementInputTag :: nat where
  "StatementInputTag = 255"

text \<open>
  Modelled from the spec: the macro \<open>CODI_ENABLE_CHECK(option, condition)\<close> of
  aux/macros.hpp is absent. The spec describes the checks it guards as optional (the
  zero-adjoint fast path; the skip policy for non-finite coefficients, propagation being
  the default): the guarded block runs when the option is off, or when the condition holds.
\<close>

definition CODI_ENABLE_CHECK :: "bool \<Rightarrow> bool \<Rightarrow> bool" where
  "CODI_ENABLE_CHECK option condition = (\<not> option \<or> condition)"

text \<open>
  Modelled from the spec: the traits of the numeric type (traits/realTraits.hpp) are
  absent. The spec asks for an "is total zero" predicate, true of the additive identity.
  The "is finite" predicate has no counterpart on the real numbers; the functions that
  call it take it as the parameter \<open>isTotalFinite\<close>.
\<close>

definition isTotalZero :: "Real \<Rightarrow> bool" where
  "isTotalZero v = (v = 0)"

section \<open>The index manager\<close>

text \<open>
  Modelled from the spec: the index managers (tapes/indices) are absent. The spec gives
  two policies behind one contract. Linear: \<open>assignIndex\<close> hands out the next
  identifier, and freeing changes nothing in the manager. Reuse: \<open>assignIndex\<close>
  keeps an identifier that is already assigned, else pops the free list or grows;
  \<open>assignUnusedIndex\<close> bypasses the free list; \<open>freeIndex\<close> pushes the identifier
  on the free list, and a double free is a fatal precondition violation. Freeing leaves
  the value passive under both policies, and freeing the passive identifier 0 does nothing.
  The constructor argument reserves the first identifiers for passive values.
\<close>

datatype IndexPolicy = Linear | Reuse

record IndexManager =
  policy :: IndexPolicy
  largestAssignedIndex :: Identifier
  freeIndices :: "Identifier list"

definition IndexManager_new :: "IndexPolicy \<Rightarrow> nat \<Rightarrow> IndexManager" where
  "IndexManager_new p reserved =
     \<lparr>policy = p, largestAssignedIndex = int reserved, freeIndices = []\<rparr>"

definition getLargestAssignedIndex :: "IndexManager \<Rightarrow> Identifier" where
  "getLargestAssignedIndex im = largestAssignedIndex im"

text \<open>The result is \<open>(generatedNewIndex, manager, identifier)\<close>.\<close>

definition assignUnusedIndex :: "IndexManager \<Rightarrow> Identifier \<Rightarrow> bool \<times> IndexManager \<times> Identifier" where
  "assignUnusedIndex im index =
     (True, im\<lparr>largestAssignedIndex := largestAssignedIndex im + 1\<rparr>,
      largestAssignedIndex im + 1)"

definition assignIndex :: "IndexManager \<Rightarrow> Identifier \<Rightarrow> bool \<times> IndexManager \<times> Identifier" where
  "assignIndex im index =
     (case policy im of
        Linear \<Rightarrow> assignUnusedIndex im index
      | Reuse \<Rightarrow>
          (if index \<noteq> 0 then (False, im, index)
           else (case freeIndices im of
                   [] \<Rightarrow> assignUnusedIndex im index
                 | i # rest \<Rightarrow> (False, im\<lparr>freeIndices := rest\<rparr>, i))))"

definition freeIndex :: "IndexManager \<Rightarrow> Identifier \<Rightarrow> error + IndexManager \<times> Identifier" where
  "freeIndex im index =
     (case policy im of
        Linear \<Rightarrow> Inr (im, 0)
      | Reuse \<Rightarrow>
          (if index = 0 then Inr (im, 0)
           else if index \<in> set (freeIndices im)
             then Inl (Exception ''Identifier freed twice.'')
           else Inr (im\<lparr>freeIndices := index # freeIndices im\<rparr>, 0)))"

text \<open>
  The invariant of the index manager under both policies: the identifiers it hands out
  are positive, so the passive identifier 0 is never assigned and never on the free list.
\<close>

definition IndexManager_valid :: "IndexManager \<Rightarrow> bool" where
  "IndexManager_valid im = (0 \<le> largestAssignedIndex im \<and> 0 \<notin> set (freeIndices im))"

section \<open>Expressions\<close>

text \<open>
  Modelled from the spec: the expression templates are absent (the spec keeps them
  outside the core and fixes their boundary). An expression is a tree whose leaves are
  active values (value and identifier) or constants, under combinators that give their
  value and their partial derivative with respect to each argument. The two combinators
  here are the ones the spec's example needs. The same tree type, with empty leaves,
  is the static shape \<open>Rhs\<close> that selects a statement's replay routine.
\<close>

record ActiveType =
  primalValue :: Real
  "identifier" :: Identifier

datatype Operation = OperationAdd | OperationMultiply

datatype ('a, 'c) Expression =
    ActiveLeaf 'a
  | ConstantLeaf 'c
  | BinaryExpression Operation "('a, 'c) Expression" "('a, 'c) Expression"

type_synonym Expr = "(ActiveType, Real) Expression"
type_synonym Shape = "(unit, unit) Expression"

fun primal :: "Operation \<Rightarrow> Real \<Rightarrow> Real \<Rightarrow> Real" where
  "primal OperationAdd a b = a + b"
| "primal OperationMultiply a b = a * b"

fun gradientA :: "Operation \<Rightarrow> Real \<Rightarrow> Real \<Rightarrow> Real" where
  "gradientA OperationAdd a b = 1"
| "gradientA OperationMultiply a b = b"

fun gradientB :: "Operation \<Rightarrow> Real \<Rightarrow> Real \<Rightarrow> Real" where
  "gradientB OperationAdd a b = 1"
| "gradientB OperationMultiply a b = a"

fun getValue :: "Expr \<Rightarrow> Real" where
  "getValue (ActiveLeaf node) = primalValue node"
| "getValue (ConstantLeaf c) = c"
| "getValue (BinaryExpression op a b) = primal op (getValue a) (getValue b)"

fun shapeOf :: "('a, 'c) Expression \<Rightarrow> Shape" where
  "shapeOf (ActiveLeaf node) = ActiveLeaf ()"
| "shapeOf (ConstantLeaf c) = ConstantLeaf ()"
| "shapeOf (BinaryExpression op a b) = BinaryExpression op (shapeOf a) (shapeOf b)"

fun NumberOfActiveTypeArguments :: "('a, 'c) Expression \<Rightarrow> nat" where
  "NumberOfActiveTypeArguments (ActiveLeaf node) = 1"
| "NumberOfActiveTypeArguments (ConstantLeaf c) = 0"
| "NumberOfActiveTypeArguments (BinaryExpression op a b) =
     NumberOfActiveTypeArguments a + NumberOfActiveTypeArguments b"

fun NumberOfConstantTypeArguments :: "('a, 'c) Expression \<Rightarrow> nat" where
  "NumberOfConstantTypeArguments (ActiveLeaf node) = 0"
| "NumberOfConstantTypeArguments (ConstantLeaf c) = 1"
| "NumberOfConstantTypeArguments (BinaryExpression op a b) =
     NumberOfConstantTypeArguments a + NumberOfConstantTypeArguments b"

text \<open>
  Modelled from the spec: \<open>ForEachTermLogic\<close> is absent. It visits the leaves from
  left to right, calling \<open>handleActive\<close> on an active leaf and \<open>handleConstant\<close> on
  a constant one.
\<close>

fun ForEachTermLogic_eval ::
  "(ActiveType \<Rightarrow> 's \<Rightarrow> 's) \<Rightarrow> (Real \<Rightarrow> 's \<Rightarrow> 's) \<Rightarrow> Expr \<Rightarrow> 's \<Rightarrow> 's" where
  "ForEachTermLogic_eval handleActive handleConstant (ActiveLeaf node) s = handleActive node s"
| "ForEachTermLogic_eval handleActive handleConstant (ConstantLeaf c) s = handleConstant c s"
| "ForEachTermLogic_eval handleActive handleConstant (BinaryExpression op a b) s =
     ForEachTermLogic_eval handleActive handleConstant b
       (ForEachTermLogic_eval handleActive handleConstant a s)"

text \<open>
  \<open>JacobianComputationLogic\<close> (expressions/logic/helpers/jacobianComputationLogic.hpp):
  \<open>link\<close> multiplies the Jacobian that arrives at a node with the node's partial
  derivative for the argument and descends; \<open>term\<close> hands an active leaf and the
  accumulated Jacobian to \<open>handleJacobianOnActive\<close>. The descent itself
  (\<open>TraversalLogic\<close>) is absent and modelled from the spec as the left-to-right visit.
\<close>

fun JacobianComputationLogic_eval ::
  "(ActiveType \<Rightarrow> Real \<Rightarrow> 's \<Rightarrow> error + 's) \<Rightarrow> Expr \<Rightarrow> Real \<Rightarrow> 's \<Rightarrow> error + 's" where
  "JacobianComputationLogic_eval handleJacobianOnActive (ActiveLeaf node) jacobian s =
     handleJacobianOnActive node jacobian s"
| "JacobianComputationLogic_eval handleJacobianOnActive (ConstantLeaf c) jacobian s = Inr s"
| "JacobianComputationLogic_eval handleJacobianOnActive (BinaryExpression op a b) jacobian s =
     (case JacobianComputationLogic_eval handleJacobianOnActive a
             (gradientA op (getValue a) (getValue b) * jacobian) s of
        Inl e \<Rightarrow> Inl e
      | Inr s' \<Rightarrow>
          JacobianComputationLogic_eval handleJacobianOnActive b
            (gradientB op (getValue a) (getValue b) * jacobian) s')"

section \<open>The tape (tapes/primalValueBaseTape.hpp)\<close>

text \<open>
  An evaluator handle is the replay routine of a statement: the one generated for the
  shape of a recorded expression, or the one of \<open>JacobianStatementGenerator<size>\<close>.
\<close>

datatype EvalHandle = ExpressionHandle Shape | JacobianExpressionHandle nat

text \<open>
  Modelled from the spec: \<open>pushStmtData\<close> belongs to the absent child classes. A
  statement record carries the output identifier, the count of passive arguments, the
  prior primal value of the output and the evaluator handle.
\<close>

record Statement =
  lhsIdentifier :: Identifier
  numberOfPassiveArguments :: ArgumentSize
  oldPrimalValue :: Real
  evalHandle :: EvalHandle

text \<open>
  The chunked data streams are absent; each is the list of its records in the order they
  were pushed. \<open>reserveItems\<close> and \<open>resize\<close> of a stream manage the capacity of its
  chunks, which a list does not have, and leave the records as they are.
  \<open>active\<close> is what \<open>isActive()\<close> of the absent base class returns.
\<close>

record Tape =
  indexManager :: IndexManager
  statementData :: "Statement list"
  rhsIdentiferData :: "Identifier list"
  passiveValueData :: "Real list"
  constantValueData :: "Real list"
  adjoints :: "Gradient list"
  primals :: "Real list"
  primalsCopy :: "Real list"
  active :: bool

definition reserveItems :: "nat \<Rightarrow> 'a list \<Rightarrow> 'a list" where
  "reserveItems k d = d"

definition dataResize :: "nat \<Rightarrow> 'a list \<Rightarrow> 'a list" where
  "dataResize k d = d"

definition pushData :: "'a \<Rightarrow> 'a list \<Rightarrow> 'a list" where
  "pushData x d = d @ [x]"

definition pushStmtData :: "Identifier \<Rightarrow> ArgumentSize \<Rightarrow> Real \<Rightarrow> EvalHandle \<Rightarrow> Tape \<Rightarrow> Tape" where
  "pushStmtData index nPassive oldPrimal handle t =
     t\<lparr>statementData := pushData
          \<lparr>lhsIdentifier = index, numberOfPassiveArguments = nPassive,
           oldPrimalValue = oldPrimal, evalHandle = handle\<rparr> (statementData t)\<rparr>"

definition resizePrimalVector :: "nat \<Rightarrow> Tape \<Rightarrow> Tape" where
  "resizePrimalVector newSize t = t\<lparr>primals := vectorResize newSize (primals t)\<rparr>"

definition resizeAdjointsVector :: "Tape \<Rightarrow> Tape" where
  "resizeAdjointsVector t =
     t\<lparr>adjoints := vectorResize (nat (getLargestAssignedIndex (indexManager t) + 1)) (adjoints t)\<rparr>"

definition checkAdjointSize :: "Identifier \<Rightarrow> Tape \<Rightarrow> Tape" where
  "checkAdjointSize index t =
     (if index \<ge> int (length (adjoints t)) then resizeAdjointsVector t else t)"

definition checkPrimalSize :: "Config \<Rightarrow> bool \<Rightarrow> Tape \<Rightarrow> Tape" where
  "checkPrimalSize cfg generatedNewIndex t =
     (if policy (indexManager t) = Linear then
        (if getLargestAssignedIndex (indexManager t) \<ge> int (length (primals t))
         then resizePrimalVector (length (primals t) + ChunkSize cfg) t else t)
      else
        (if generatedNewIndex
         then resizePrimalVector (nat (getLargestAssignedIndex (indexManager t) + 1)) t else t))"

text \<open>The constructor; \<open>adjoints(1)\<close> is there for the const overload of \<open>gradient\<close>.\<close>

definition PrimalValueBaseTape_new :: "Config \<Rightarrow> IndexPolicy \<Rightarrow> Tape" where
  "PrimalValueBaseTape_new cfg p =
     checkPrimalSize cfg True
       \<lparr>indexManager = IndexManager_new p MaxArgumentSize,
        statementData = [], rhsIdentiferData = [], passiveValueData = [],
        constantValueData = [], adjoints = [0], primals = [], primalsCopy = [],
        active = False\<rparr>"

text \<open>
  \<open>gradient(identifier)\<close>, non-const: the tape after \<open>checkAdjointSize\<close>, where
  \<open>adjoints[identifier]\<close> is the element the returned reference names.
  \<open>gradientRead\<close> reads through that reference, \<open>gradientAssign\<close> writes through it.
\<close>

definition gradient :: "Identifier \<Rightarrow> Tape \<Rightarrow> error + Tape" where
  "gradient index t =
     (let t' = checkAdjointSize index t in
      case vectorGet (adjoints t') index of Inl e \<Rightarrow> Inl e | Inr g \<Rightarrow> Inr t')"

definition gradientRead :: "Identifier \<Rightarrow> Tape \<Rightarrow> error + Gradient \<times> Tape" where
  "gradientRead index t =
     (case gradient index t of
        Inl e \<Rightarrow> Inl e
      | Inr t' \<Rightarrow> (case vectorGet (adjoints t') index of
                     Inl e \<Rightarrow> Inl e | Inr g \<Rightarrow> Inr (g, t')))"

definition gradientAssign :: "Identifier \<Rightarrow> Gradient \<Rightarrow> Tape \<Rightarrow> error + Tape" where
  "gradientAssign index g t =
     (case gradient index t of
        Inl e \<Rightarrow> Inl e
      | Inr t' \<Rightarrow> (case vectorSet (adjoints t') index g of
                     Inl e \<Rightarrow> Inl e | Inr a \<Rightarrow> Inr (t'\<lparr>adjoints := a\<rparr>)))"

text \<open>\<open>gradient(identifier) const\<close>.\<close>

definition gradient_const :: "Tape \<Rightarrow> Identifier \<Rightarrow> error + Gradient" where
  "gradient_const t index =
     (if index > int (length (adjoints t)) then vectorGet (adjoints t) 0
      else vectorGet (adjoints t) index)"

definition destroyIdentifier :: "ActiveType \<Rightarrow> Tape \<Rightarrow> error + Tape \<times> ActiveType" where
  "destroyIdentifier v t =
     (case freeIndex (indexManager t) (identifier v) of
        Inl e \<Rightarrow> Inl e
      | Inr (im, index) \<Rightarrow> Inr (t\<lparr>indexManager := im\<rparr>, v\<lparr>identifier := index\<rparr>))"

subsection \<open>Recording a statement\<close>

definition CountActiveArguments_handleActive :: "Config \<Rightarrow> ActiveType \<Rightarrow> nat \<Rightarrow> nat" where
  "CountActiveArguments_handleActive cfg node numberOfActiveArguments =
     (if CODI_ENABLE_CHECK (CheckZeroIndex cfg) (0 \<noteq> identifier node)
      then numberOfActiveArguments + 1 else numberOfActiveArguments)"

definition CountActiveArguments_eval :: "Config \<Rightarrow> Expr \<Rightarrow> nat \<Rightarrow> nat" where
  "CountActiveArguments_eval cfg rhs numberOfActiveArguments =
     ForEachTermLogic_eval (CountActiveArguments_handleActive cfg) (\<lambda>c s. s) rhs
       numberOfActiveArguments"

text \<open>
  \<open>PushIdentfierPassiveAndConstant\<close>; the state is the tape and \<open>curPassiveArgument\<close>.
\<close>

definition PushIdentfierPassiveAndConstant_handleActive ::
  "Config \<Rightarrow> ActiveType \<Rightarrow> Tape \<times> nat \<Rightarrow> Tape \<times> nat" where
  "PushIdentfierPassiveAndConstant_handleActive cfg node s =
     (case s of (t, curPassiveArgument) \<Rightarrow>
        if CODI_ENABLE_CHECK (CheckZeroIndex cfg) (0 = identifier node) then
          (t\<lparr>passiveValueData := pushData (primalValue node) (passiveValueData t),
             rhsIdentiferData := pushData (int curPassiveArgument) (rhsIdentiferData t)\<rparr>,
           curPassiveArgument + 1)
        else
          (t\<lparr>rhsIdentiferData := pushData (identifier node) (rhsIdentiferData t)\<rparr>,
           curPassiveArgument))"

definition PushIdentfierPassiveAndConstant_handleConstant ::
  "Real \<Rightarrow> Tape \<times> nat \<Rightarrow> Tape \<times> nat" where
  "PushIdentfierPassiveAndConstant_handleConstant c s =
     (case s of (t, curPassiveArgument) \<Rightarrow>
        (t\<lparr>constantValueData := pushData c (constantValueData t)\<rparr>, curPassiveArgument))"

definition PushIdentfierPassiveAndConstant_eval :: "Config \<Rightarrow> Expr \<Rightarrow> Tape \<times> nat \<Rightarrow> Tape \<times> nat" where
  "PushIdentfierPassiveAndConstant_eval cfg rhs s =
     ForEachTermLogic_eval (PushIdentfierPassiveAndConstant_handleActive cfg)
       PushIdentfierPassiveAndConstant_handleConstant rhs s"

text \<open>
  \<open>store(lhs, rhs)\<close> for an expression on the right. The left-hand side is passed in
  and returned, since the call changes its identifier and its value.
\<close>

definition store :: "Config \<Rightarrow> ActiveType \<Rightarrow> Expr \<Rightarrow> Tape \<Rightarrow> error + Tape \<times> ActiveType" where
  "store cfg lhs rhs t =
     (case
        (if CODI_ENABLE_CHECK (CheckTapeActivity cfg) (active t) then
           (let MaxActiveArgs = NumberOfActiveTypeArguments rhs;
                MaxConstantArgs = NumberOfConstantTypeArguments rhs;
                activeArguments = CountActiveArguments_eval cfg rhs 0
            in if 0 \<noteq> activeArguments then
                 (let t1 = t\<lparr>statementData := reserveItems 1 (statementData t),
                             rhsIdentiferData := reserveItems MaxActiveArgs (rhsIdentiferData t),
                             passiveValueData :=
                               reserveItems (MaxActiveArgs - activeArguments) (passiveValueData t),
                             constantValueData :=
                               reserveItems MaxConstantArgs (constantValueData t)\<rparr>
                  in case PushIdentfierPassiveAndConstant_eval cfg rhs (t1, 0) of
                       (t2, passiveArguments) \<Rightarrow>
                  (case assignIndex (indexManager t2) (identifier lhs) of
                       (generatedNewIndex, im, index) \<Rightarrow>
                  (let t3 = checkPrimalSize cfg generatedNewIndex (t2\<lparr>indexManager := im\<rparr>)
                   in case vectorGet (primals t3) index of
                        Inl e \<Rightarrow> Inl e
                      | Inr primalEntry \<Rightarrow>
                  (let t4 = pushStmtData index (word_of_nat passiveArguments) primalEntry
                              (ExpressionHandle (shapeOf rhs)) t3
                   in case vectorSet (primals t4) index (getValue rhs) of
                        Inl e \<Rightarrow> Inl e
                      | Inr p \<Rightarrow> Inr (t4\<lparr>primals := p\<rparr>, lhs\<lparr>identifier := index\<rparr>)))))
               else
                 (case freeIndex (indexManager t) (identifier lhs) of
                    Inl e \<Rightarrow> Inl e
                  | Inr (im, index) \<Rightarrow>
                      Inr (t\<lparr>indexManager := im\<rparr>, lhs\<lparr>identifier := index\<rparr>)))
         else
           (case freeIndex (indexManager t) (identifier lhs) of
              Inl e \<Rightarrow> Inl e
            | Inr (im, index) \<Rightarrow>
                Inr (t\<lparr>indexManager := im\<rparr>, lhs\<lparr>identifier := index\<rparr>))) of
        Inl e \<Rightarrow> Inl e
      | Inr (t', lhs') \<Rightarrow> Inr (t', lhs'\<lparr>primalValue := getValue rhs\<rparr>))"

text \<open>\<open>internalRegisterInput(value, true)\<close>, as \<open>registerInput\<close> calls it.\<close>

definition registerInput :: "Config \<Rightarrow> ActiveType \<Rightarrow> Tape \<Rightarrow> error + Tape \<times> ActiveType" where
  "registerInput cfg v t =
     (case assignUnusedIndex (indexManager t) (identifier v) of
        (generatedNewIndex, im, index) \<Rightarrow>
     (let t1 = checkPrimalSize cfg generatedNewIndex (t\<lparr>indexManager := im\<rparr>)
      in case vectorGet (primals t1) index of
           Inl e \<Rightarrow> Inl e
         | Inr primalEntry \<Rightarrow>
     (let t2 = (if policy (indexManager t1) = Linear
                then pushStmtData index (word_of_nat StatementInputTag) primalEntry
                       (ExpressionHandle (ActiveLeaf ()))
                       (t1\<lparr>statementData := reserveItems 1 (statementData t1)\<rparr>)
                else t1)
      in case vectorSet (primals t2) index (primalValue v) of
           Inl e \<Rightarrow> Inl e
         | Inr p \<Rightarrow> Inr (t2\<lparr>primals := p\<rparr>, v\<lparr>identifier := index\<rparr>))))"

subsection \<open>Parameters\<close>

text \<open>
  The members of \<open>TapeParameters\<close> that the constructor adds to the options of this
  tape. The enumeration itself is absent; \<open>BaseParameter\<close> stands for its other
  members, which the \<open>default\<close> branch hands to the absent base class, here the
  parameters \<open>Base_getParameter\<close> and \<open>Base_setParameter\<close>.
\<close>

datatype TapeParameters =
    AdjointSize | ConstantValuesSize | LargestIdentifier | PassiveValuesSize
  | RhsIdentifiersSize | PrimalSize | StatementSize | BaseParameter

definition getParameter :: "(TapeParameters \<Rightarrow> Tape \<Rightarrow> error + nat) \<Rightarrow> TapeParameters \<Rightarrow> Tape \<Rightarrow> error + nat" where
  "getParameter Base_getParameter parameter t =
     (case parameter of
        AdjointSize \<Rightarrow> Inr (length (adjoints t))
      | ConstantValuesSize \<Rightarrow> Inr (length (constantValueData t))
      | LargestIdentifier \<Rightarrow> Inr (nat (getLargestAssignedIndex (indexManager t)))
      | PassiveValuesSize \<Rightarrow> Inr (length (passiveValueData t))
      | RhsIdentifiersSize \<Rightarrow> Inr (length (rhsIdentiferData t))
      | PrimalSize \<Rightarrow> Inr (length (primals t))
      | StatementSize \<Rightarrow> Inr (length (statementData t))
      | BaseParameter \<Rightarrow> Base_getParameter parameter t)"

definition setParameter :: "(TapeParameters \<Rightarrow> nat \<Rightarrow> Tape \<Rightarrow> error + Tape) \<Rightarrow> TapeParameters \<Rightarrow> nat \<Rightarrow> Tape \<Rightarrow> error + Tape" where
  "setParameter Base_setParameter parameter v t =
     (case parameter of
        AdjointSize \<Rightarrow> Inr (t\<lparr>adjoints := vectorResize v (adjoints t)\<rparr>)
      | ConstantValuesSize \<Rightarrow> Inr (t\<lparr>constantValueData := dataResize v (constantValueData t)\<rparr>)
      | LargestIdentifier \<Rightarrow> Inl (Exception ''Tried to set a get only option.'')
      | PassiveValuesSize \<Rightarrow> Inr (t\<lparr>passiveValueData := dataResize v (passiveValueData t)\<rparr>)
      | RhsIdentifiersSize \<Rightarrow> Inr (t\<lparr>rhsIdentiferData := dataResize v (rhsIdentiferData t)\<rparr>)
      | PrimalSize \<Rightarrow> Inr (t\<lparr>primals := vectorResize v (primals t)\<rparr>)
      | StatementSize \<Rightarrow> Inr (t\<lparr>statementData := dataResize v (statementData t)\<rparr>)
      | BaseParameter \<Rightarrow> Base_setParameter parameter v t)"

section \<open>Replaying statements in reverse\<close>

text \<open>
  The replay routines receive the primal and adjoint vectors, the three data streams
  below the statement stream, and a position into each stream, which they move.
\<close>

record DataPointers =
  constantValues :: "Real list"
  passiveValues :: "Real list"
  rhsIdentifiers :: "Identifier list"

record EvalState =
  primalVector :: "Real list"
  adjointVector :: "Gradient list"
  curConstantPos :: size_t
  curPassivePos :: size_t
  curRhsIdentifiersPos :: size_t

text \<open>\<open>IncrementReversalLogic::handleJacobianOnActive\<close>, with the adjoint vector a plain array.\<close>

definition IncrementReversalLogic_handleJacobianOnActive ::
  "(Real \<Rightarrow> bool) \<Rightarrow> Config \<Rightarrow> Gradient \<Rightarrow> ActiveType \<Rightarrow> Real \<Rightarrow> Gradient list \<Rightarrow> error + Gradient list" where
  "IncrementReversalLogic_handleJacobianOnActive isTotalFinite cfg lhsAdjoint node jacobian adjointVec =
     (if CODI_ENABLE_CHECK (IgnoreInvalidJacobies cfg) (isTotalFinite jacobian) then
        (case vectorGet adjointVec (identifier node) of
           Inl e \<Rightarrow> Inl e
         | Inr g \<Rightarrow> vectorSet adjointVec (identifier node) (g + jacobian * lhsAdjoint))
      else Inr adjointVec)"

text \<open>
  \<open>IncrementForwardLogic::handleJacobianOnActive\<close>: the state is the tangent of the
  left-hand side, the adjoint vector is read.
\<close>

definition IncrementForwardLogic_handleJacobianOnActive ::
  "(Real \<Rightarrow> bool) \<Rightarrow> Config \<Rightarrow> Gradient list \<Rightarrow> ActiveType \<Rightarrow> Real \<Rightarrow> Gradient \<Rightarrow> error + Gradient" where
  "IncrementForwardLogic_handleJacobianOnActive isTotalFinite cfg adjointVec node jacobian lhsTangent =
     (if CODI_ENABLE_CHECK (IgnoreInvalidJacobies cfg) (isTotalFinite jacobian) then
        (case vectorGet adjointVec (identifier node) of
           Inl e \<Rightarrow> Inl e
         | Inr g \<Rightarrow> Inr (lhsTangent + jacobian * g))
      else Inr lhsTangent)"




text \<open>
  Modelled from the spec: \<open>ConstructStaticContextLogic\<close> is absent. It rebuilds the
  expression of a statement from its shape: the k-th active leaf takes the k-th
  identifier stored for the statement and the primal value at that identifier, the k-th
  constant leaf the k-th stored constant. The two numbers count the leaves built so far.
\<close>

fun construct ::
  "Shape \<Rightarrow> Real list \<Rightarrow> Identifier list \<Rightarrow> size_t \<Rightarrow> Real list \<Rightarrow> size_t \<Rightarrow> nat \<Rightarrow> nat
     \<Rightarrow> error + Expr \<times> nat \<times> nat" where
  "construct (ActiveLeaf u) primalVec ids idPos consts constPos ka kc =
     (case vectorGet ids (int (unat idPos) + int ka) of
        Inl e \<Rightarrow> Inl e
      | Inr index \<Rightarrow>
          (case vectorGet primalVec index of
             Inl e \<Rightarrow> Inl e
           | Inr v \<Rightarrow> Inr (ActiveLeaf \<lparr>primalValue = v, identifier = index\<rparr>, ka + 1, kc)))"
| "construct (ConstantLeaf u) primalVec ids idPos consts constPos ka kc =
     (case vectorGet consts (int (unat constPos) + int kc) of
        Inl e \<Rightarrow> Inl e
      | Inr c \<Rightarrow> Inr (ConstantLeaf c, ka, kc + 1))"
| "construct (BinaryExpression op a b) primalVec ids idPos consts constPos ka kc =
     (case construct a primalVec ids idPos consts constPos ka kc of
        Inl e \<Rightarrow> Inl e
      | Inr (a', ka', kc') \<Rightarrow>
          (case construct b primalVec ids idPos consts constPos ka' kc' of
             Inl e \<Rightarrow> Inl e
           | Inr (b', ka'', kc'') \<Rightarrow> Inr (BinaryExpression op a' b', ka'', kc'')))"

text \<open>\<open>statementEvaluateReverseInner<Rhs>\<close>.\<close>

definition statementEvaluateReverseInner ::
  "(Real \<Rightarrow> bool) \<Rightarrow> Config \<Rightarrow> Shape \<Rightarrow> DataPointers \<Rightarrow> Gradient \<Rightarrow> EvalState \<Rightarrow> error + EvalState" where
  "statementEvaluateReverseInner isTotalFinite cfg rhs d lhsAdjoint st =
     (case construct rhs (primalVector st) (rhsIdentifiers d) (curRhsIdentifiersPos st)
             (constantValues d) (curConstantPos st) 0 0 of
        Inl e \<Rightarrow> Inl e
      | Inr (staticsRhs, ka, kc) \<Rightarrow>
          (case JacobianComputationLogic_eval
                  (IncrementReversalLogic_handleJacobianOnActive isTotalFinite cfg lhsAdjoint)
                  staticsRhs 1 (adjointVector st) of
             Inl e \<Rightarrow> Inl e
           | Inr a \<Rightarrow> Inr (st\<lparr>adjointVector := a\<rparr>)))"

text \<open>
  The loop of \<open>statementEvaluateReverseFull\<close> that copies the passive values of the
  statement into the first entries of the primal vector.
\<close>

function copyPassiveValues :: "nat \<Rightarrow> nat \<Rightarrow> Real list \<Rightarrow> size_t \<Rightarrow> Real list \<Rightarrow> error + Real list" where
  "copyPassiveValues curPos nPassive passiveVals passivePos primalVec =
     (if curPos < nPassive then
        (case vectorGet passiveVals (int (unat (passivePos + word_of_nat curPos))) of
           Inl e \<Rightarrow> Inl e
         | Inr v \<Rightarrow>
             (case vectorSet primalVec (int curPos) v of
                Inl e \<Rightarrow> Inl e
              | Inr p \<Rightarrow> copyPassiveValues (curPos + 1) nPassive passiveVals passivePos p))
      else Inr primalVec)"
  by pat_completeness auto
termination
  by (relation "measure (\<lambda>(curPos, nPassive, passiveVals, passivePos, primalVec). nPassive - curPos)")
    auto

text \<open>
  \<open>statementEvaluateReverseFull\<close>; \<open>evalInner\<close> is the routine of the statement's shape.
\<close>

definition statementEvaluateReverseFull ::
  "Config \<Rightarrow> (DataPointers \<Rightarrow> Gradient \<Rightarrow> EvalState \<Rightarrow> error + EvalState) \<Rightarrow> nat \<Rightarrow> nat
     \<Rightarrow> DataPointers \<Rightarrow> Gradient \<Rightarrow> ArgumentSize \<Rightarrow> EvalState \<Rightarrow> error + EvalState" where
  "statementEvaluateReverseFull cfg evalInner maxActiveArgs maxConstantArgs d lhsAdjoint nPassive st =
     (let st1 = st\<lparr>curConstantPos := curConstantPos st - word_of_nat maxConstantArgs,
                   curPassivePos := curPassivePos st - ucast nPassive,
                   curRhsIdentifiersPos := curRhsIdentifiersPos st - word_of_nat maxActiveArgs\<rparr>
      in if CODI_ENABLE_CHECK (SkipZeroAdjointEvaluation cfg) (\<not> isTotalZero lhsAdjoint) then
           (case copyPassiveValues 0 (unat nPassive) (passiveValues d) (curPassivePos st1)
                   (primalVector st1) of
              Inl e \<Rightarrow> Inl e
            | Inr p \<Rightarrow> evalInner d lhsAdjoint (st1\<lparr>primalVector := p\<rparr>))
         else Inr st1)"

definition statementEvaluateReverse ::
  "(Real \<Rightarrow> bool) \<Rightarrow> Config \<Rightarrow> Shape \<Rightarrow> DataPointers \<Rightarrow> Gradient \<Rightarrow> ArgumentSize \<Rightarrow> EvalState
     \<Rightarrow> error + EvalState" where
  "statementEvaluateReverse isTotalFinite cfg rhs d lhsAdjoint nPassive st =
     statementEvaluateReverseFull cfg (statementEvaluateReverseInner isTotalFinite cfg rhs)
       (NumberOfActiveTypeArguments rhs) (NumberOfConstantTypeArguments rhs)
       d lhsAdjoint nPassive st"

text \<open>
  \<open>JacobianStatementGenerator::evalJacobianReverse\<close>: the stored coefficients lie in
  the stream of passive values, their identifiers in the stream of identifiers.
\<close>

function evalJacobianReverse_loop :: "DataPointers \<Rightarrow> Gradient \<Rightarrow> size_t \<Rightarrow> EvalState \<Rightarrow> error + EvalState" where
  "evalJacobianReverse_loop d lhsAdjoint endRhsIdentifiersPos st =
     (if curRhsIdentifiersPos st > endRhsIdentifiersPos then
        (let st1 = st\<lparr>curPassivePos := curPassivePos st - 1,
                      curRhsIdentifiersPos := curRhsIdentifiersPos st - 1\<rparr>
         in case vectorGet (passiveValues d) (int (unat (curPassivePos st1))) of
              Inl e \<Rightarrow> Inl e
            | Inr jacobian \<Rightarrow>
         (case vectorGet (rhsIdentifiers d) (int (unat (curRhsIdentifiersPos st1))) of
              Inl e \<Rightarrow> Inl e
            | Inr index \<Rightarrow>
         (case vectorGet (adjointVector st1) index of
              Inl e \<Rightarrow> Inl e
            | Inr g \<Rightarrow>
         (case vectorSet (adjointVector st1) index (g + jacobian * lhsAdjoint) of
              Inl e \<Rightarrow> Inl e
            | Inr a \<Rightarrow>
                evalJacobianReverse_loop d lhsAdjoint endRhsIdentifiersPos
                  (st1\<lparr>adjointVector := a\<rparr>)))))
      else Inr st)"
  by pat_completeness auto
termination
proof (relation "measure (\<lambda>(d, lhsAdjoint, endPos, st). unat (curRhsIdentifiersPos st))")
  show "wf (measure (\<lambda>(d, lhsAdjoint, endPos, st). unat (curRhsIdentifiersPos st)))"
    by simp
next
  fix d :: DataPointers and lhsAdjoint :: Gradient and endPos :: size_t and st :: EvalState
    and st1 jacobian index g a
  assume gt: "endPos < curRhsIdentifiersPos st"
    and st1: "st1 = st\<lparr>curPassivePos := curPassivePos st - 1,
                       curRhsIdentifiersPos := curRhsIdentifiersPos st - 1\<rparr>"
  from gt have "curRhsIdentifiersPos st \<noteq> 0"
    by (auto simp: word_less_nat_alt)
  then have "unat (curRhsIdentifiersPos st - 1) < unat (curRhsIdentifiersPos st)"
    by (simp add: unat_minus_one unat_gt_0)
  then show "((d, lhsAdjoint, endPos, st1\<lparr>adjointVector := a\<rparr>), (d, lhsAdjoint, endPos, st))
      \<in> measure (\<lambda>(d, lhsAdjoint, endPos, st). unat (curRhsIdentifiersPos st))"
    by (simp add: st1)
qed

definition evalJacobianReverse ::
  "Config \<Rightarrow> DataPointers \<Rightarrow> Gradient \<Rightarrow> size_t \<Rightarrow> EvalState \<Rightarrow> error + bool \<times> EvalState" where
  "evalJacobianReverse cfg d lhsAdjoint endRhsIdentifiersPos st =
     (let lhsZero = isTotalZero lhsAdjoint
      in if CODI_ENABLE_CHECK (SkipZeroAdjointEvaluation cfg) (\<not> lhsZero) then
           (case evalJacobianReverse_loop d lhsAdjoint endRhsIdentifiersPos st of
              Inl e \<Rightarrow> Inl e
            | Inr st' \<Rightarrow> Inr (lhsZero, st'))
         else Inr (lhsZero, st))"

text \<open>\<open>JacobianStatementGenerator<size>::statementEvaluateReverse\<close>.\<close>

definition JacobianStatementGenerator_statementEvaluateReverse ::
  "Config \<Rightarrow> DataPointers \<Rightarrow> Gradient \<Rightarrow> ArgumentSize \<Rightarrow> EvalState \<Rightarrow> error + EvalState" where
  "JacobianStatementGenerator_statementEvaluateReverse cfg d lhsAdjoint nPassive st =
     (let endPos = curRhsIdentifiersPos st - ucast nPassive
      in case evalJacobianReverse cfg d lhsAdjoint endPos st of
           Inl e \<Rightarrow> Inl e
         | Inr (lhsZero, st') \<Rightarrow>
             (if SkipZeroAdjointEvaluation cfg \<and> lhsZero then
                Inr (st'\<lparr>curPassivePos := curPassivePos st' - ucast nPassive,
                         curRhsIdentifiersPos := curRhsIdentifiersPos st' - ucast nPassive\<rparr>)
              else Inr st'))"

text \<open>\<open>StatementEvaluator::callReverse\<close>: the handle selects the routine.\<close>

definition callReverse ::
  "(Real \<Rightarrow> bool) \<Rightarrow> Config \<Rightarrow> EvalHandle \<Rightarrow> DataPointers \<Rightarrow> Gradient \<Rightarrow> ArgumentSize \<Rightarrow> EvalState
     \<Rightarrow> error + EvalState" where
  "callReverse isTotalFinite cfg h d lhsAdjoint nPassive st =
     (case h of
        ExpressionHandle rhs \<Rightarrow> statementEvaluateReverse isTotalFinite cfg rhs d lhsAdjoint nPassive st
      | JacobianExpressionHandle k \<Rightarrow>
          JacobianStatementGenerator_statementEvaluateReverse cfg d lhsAdjoint nPassive st)"

text \<open>
  Modelled from the spec: \<open>internalEvaluateReverseStack\<close> belongs to the absent child
  classes. It iterates the statements from the later position down to the earlier one;
  for each it reads the adjoint of the output, which is consumed (cleared), restores the
  prior primal value of the output on a tape that reuses identifiers, and calls the
  statement's replay routine. A statement that \<open>registerInput\<close> pushed, marked by
  \<open>Config::StatementInputTag\<close> in place of the number of passive arguments, has no
  arguments and originates no value from others: it is passed over, and the adjoint of
  the input stays in the adjoint vector, where the caller reads it.
\<close>

function internalEvaluateReverseStack ::
  "(Real \<Rightarrow> bool) \<Rightarrow> Config \<Rightarrow> IndexPolicy \<Rightarrow> DataPointers \<Rightarrow> Statement list \<Rightarrow> nat \<Rightarrow> nat \<Rightarrow> EvalState
     \<Rightarrow> error + EvalState" where
  "internalEvaluateReverseStack isTotalFinite cfg p d stmts curStatementPos endStatementPos st =
     (if curStatementPos > endStatementPos then
        (case vectorGet stmts (int (curStatementPos - 1)) of
           Inl e \<Rightarrow> Inl e
         | Inr stmt \<Rightarrow>
        (if unat (numberOfPassiveArguments stmt) = StatementInputTag then
           internalEvaluateReverseStack isTotalFinite cfg p d stmts (curStatementPos - 1)
             endStatementPos st
         else
        (case vectorGet (adjointVector st) (lhsIdentifier stmt) of
           Inl e \<Rightarrow> Inl e
         | Inr lhsAdjoint \<Rightarrow>
        (case vectorSet (adjointVector st) (lhsIdentifier stmt) 0 of
           Inl e \<Rightarrow> Inl e
         | Inr a \<Rightarrow>
        (case (if p = Reuse
               then vectorSet (primalVector st) (lhsIdentifier stmt) (oldPrimalValue stmt)
               else Inr (primalVector st)) of
           Inl e \<Rightarrow> Inl e
         | Inr pv \<Rightarrow>
        (case callReverse isTotalFinite cfg (evalHandle stmt) d lhsAdjoint
                (numberOfPassiveArguments stmt) (st\<lparr>adjointVector := a, primalVector := pv\<rparr>) of
           Inl e \<Rightarrow> Inl e
         | Inr st' \<Rightarrow>
             internalEvaluateReverseStack isTotalFinite cfg p d stmts (curStatementPos - 1)
               endStatementPos st'))))))
      else Inr st)"
  by pat_completeness auto
termination
  by (relation "measure (\<lambda>(isTotalFinite, cfg, p, d, stmts, cur, endPos, st). cur)") auto

text \<open>
  A position is the size of every data stream (\<open>getPosition\<close> of the absent base class,
  modelled from the spec).
\<close>

record Position =
  constantPos :: nat
  passivePos :: nat
  rhsIdentifiersPos :: nat
  statementPos :: nat

definition getPosition :: "Tape \<Rightarrow> Position" where
  "getPosition t =
     \<lparr>constantPos = length (constantValueData t), passivePos = length (passiveValueData t),
      rhsIdentifiersPos = length (rhsIdentiferData t), statementPos = length (statementData t)\<rparr>"

text \<open>
  \<open>evaluate(start, end)\<close>: \<open>checkAdjointSize\<close>, then \<open>internalEvaluateReverse\<close> on
  the tape's own adjoint vector, with a copy of the primal vector on a tape that reuses
  identifiers. The absent layers between it and \<open>internalEvaluateReverseStack\<close>
  (external functions, the walk over the chunks) pass the range on.
\<close>

definition evaluate :: "(Real \<Rightarrow> bool) \<Rightarrow> Config \<Rightarrow> Position \<Rightarrow> Position \<Rightarrow> Tape \<Rightarrow> error + Tape" where
  "evaluate isTotalFinite cfg startP endP t =
     (let t1 = checkAdjointSize (getLargestAssignedIndex (indexManager t)) t;
          copyPrimal = (policy (indexManager t1) \<noteq> Linear);
          t2 = (if copyPrimal then t1\<lparr>primalsCopy := primals t1\<rparr> else t1);
          d = \<lparr>constantValues = constantValueData t2, passiveValues = passiveValueData t2,
               rhsIdentifiers = rhsIdentiferData t2\<rparr>;
          st = \<lparr>primalVector = (if copyPrimal then primalsCopy t2 else primals t2),
                adjointVector = adjoints t2,
                curConstantPos = word_of_nat (constantPos startP),
                curPassivePos = word_of_nat (passivePos startP),
                curRhsIdentifiersPos = word_of_nat (rhsIdentifiersPos startP)\<rparr>
      in case internalEvaluateReverseStack isTotalFinite cfg (policy (indexManager t2)) d
                (statementData t2) (statementPos startP) (statementPos endP) st of
           Inl e \<Rightarrow> Inl e
         | Inr st' \<Rightarrow>
             Inr (if copyPrimal
                  then t2\<lparr>adjoints := adjointVector st', primalsCopy := primalVector st'\<rparr>
                  else t2\<lparr>adjoints := adjointVector st', primals := primalVector st'\<rparr>))"

text \<open>
  Modelled from the spec: "for every stored (coefficient, input-identifier) pair,
  accumulate \<open>coefficient * outputAdjoint\<close> into the input's adjoint slot".
  \<open>accumulatePairs\<close> does this for a list of pairs, from the first to the last.
\<close>

fun accumulatePairs :: "Gradient \<Rightarrow> (Real \<times> Identifier) list \<Rightarrow> Gradient list \<Rightarrow> Gradient list" where
  "accumulatePairs outputAdjoint [] adj = adj"
| "accumulatePairs outputAdjoint ((coefficient, input) # pairs) adj =
     accumulatePairs outputAdjoint pairs
       (adj[nat input := adj ! nat input + coefficient * outputAdjoint])"



section \<open>The dense Jacobian block (tools/data/jacobian.hpp)\<close>

text \<open>
  \<open>struct Jacobian\<close>: the storage \<open>values\<close> of \<open>n * m\<close> elements and the two
  dimensions. The indices are \<open>size_t\<close>; they are natural numbers here, the sizes
  being those of vectors held in memory.
\<close>

record Jacobian =
  jac_values :: "Real list"
  jac_m :: nat
  jac_n :: nat

definition Jacobian_new :: "nat \<Rightarrow> nat \<Rightarrow> Jacobian" where
  "Jacobian_new m n = \<lparr>jac_values = replicate (n * m) 0, jac_m = m, jac_n = n\<rparr>"

definition computeIndex :: "'a Jacobian_scheme \<Rightarrow> nat \<Rightarrow> nat \<Rightarrow> nat" where
  "computeIndex J i j = i * jac_n J + j"

text \<open>\<open>operator()(i, j) const\<close>, the read access.\<close>

definition jacobianGet :: "'a Jacobian_scheme \<Rightarrow> nat \<Rightarrow> nat \<Rightarrow> error + Real" where
  "jacobianGet J i j = vectorGet (jac_values J) (int (computeIndex J i j))"

text \<open>\<open>operator()(i, j)\<close> returning \<open>T&\<close>, used to write an element.\<close>

definition jacobianSet :: "'a Jacobian_scheme \<Rightarrow> nat \<Rightarrow> nat \<Rightarrow> Real \<Rightarrow> error + 'a Jacobian_scheme" where
  "jacobianSet J i j v =
     (case vectorSet (jac_values J) (int (computeIndex J i j)) v of
        Inl e \<Rightarrow> Inl e
      | Inr vs \<Rightarrow> Inr (J\<lparr>jac_values := vs\<rparr>))"

section \<open>Manual statements\<close>

text \<open>
  \<open>jacobianExpressions\<close>, the table of \<open>Config::MaxArgumentSize\<close> handles, one for
  every \<open>JacobianStatementGenerator<size>\<close> with \<open>size\<close> from 0 to 254.
\<close>

definition jacobianExpressions :: "EvalHandle list" where
  "jacobianExpressions = map JacobianExpressionHandle [0..<MaxArgumentSize]"

definition pushJacobiManual :: "Real \<Rightarrow> Real \<Rightarrow> Identifier \<Rightarrow> Tape \<Rightarrow> Tape" where
  "pushJacobiManual jacobi v index t =
     t\<lparr>passiveValueData := pushData jacobi (passiveValueData t),
       rhsIdentiferData := pushData index (rhsIdentiferData t)\<rparr>"

text \<open>\<open>storeManual\<close>; the result carries \<open>lhsIndex\<close>, which is passed by reference.\<close>

definition storeManual :: "Real \<Rightarrow> Identifier \<Rightarrow> ArgumentSize \<Rightarrow> Tape \<Rightarrow> error + Tape \<times> Identifier" where
  "storeManual lhsValue lhsIndex argSize t =
     (let t1 = t\<lparr>statementData := reserveItems 1 (statementData t),
                 rhsIdentiferData := reserveItems (unat argSize) (rhsIdentiferData t),
                 passiveValueData := reserveItems (unat argSize) (passiveValueData t)\<rparr>
      in case assignIndex (indexManager t1) lhsIndex of
           (generatedNewIndex, im, index) \<Rightarrow>
      (let t2 = t1\<lparr>indexManager := im\<rparr>
       in case vectorGet (primals t2) index of
            Inl e \<Rightarrow> Inl e
          | Inr primalEntry \<Rightarrow>
      (case vectorGet jacobianExpressions (int (unat argSize)) of
            Inl e \<Rightarrow> Inl e
          | Inr h \<Rightarrow>
      (let t3 = pushStmtData index argSize primalEntry h t2
       in case vectorSet (primals t3) index lhsValue of
            Inl e \<Rightarrow> Inl e
          | Inr p \<Rightarrow> Inr (t3\<lparr>primals := p\<rparr>, index)))))"

section \<open>Preaccumulation (tools/helpers/preaccumulationHelper.hpp)\<close>

text \<open>
  Modelled from the spec: \<open>JacobianCountNonZerosRow\<close> is absent. It is the dense
  Jacobian block with a counter of nonzero entries for every row.
\<close>

record JacobianCountNonZerosRow = Jacobian +
  nonZerosRowVector :: "int list"

definition getM :: "'a Jacobian_scheme \<Rightarrow> nat" where
  "getM J = jac_m J"

definition getN :: "'a Jacobian_scheme \<Rightarrow> nat" where
  "getN J = jac_n J"

definition JacobianCountNonZerosRow_resize :: "nat \<Rightarrow> nat \<Rightarrow> JacobianCountNonZerosRow \<Rightarrow> JacobianCountNonZerosRow" where
  "JacobianCountNonZerosRow_resize m n J =
     J\<lparr>jac_values := vectorResize (n * m) (jac_values J), jac_m := m, jac_n := n,
       nonZerosRowVector := vectorResize m (nonZerosRowVector J)\<rparr>"

definition nonZerosRow :: "JacobianCountNonZerosRow \<Rightarrow> nat \<Rightarrow> error + int" where
  "nonZerosRow J i = vectorGet (nonZerosRowVector J) (int i)"

definition nonZerosRow_assign :: "JacobianCountNonZerosRow \<Rightarrow> nat \<Rightarrow> int \<Rightarrow> error + JacobianCountNonZerosRow" where
  "nonZerosRow_assign J i k =
     (case vectorSet (nonZerosRowVector J) (int i) k of
        Inl e \<Rightarrow> Inl e
      | Inr c \<Rightarrow> Inr (J\<lparr>nonZerosRowVector := c\<rparr>))"

text \<open>
  The helper. \<open>outputValues\<close> holds pointers to the output variables; the variables
  live in a memory from addresses to active values, which \<open>doPreaccumulation\<close> updates.
\<close>

type_synonym Memory = "nat \<Rightarrow> ActiveType"

record PreaccumulationHelper =
  inputData :: "Identifier list"
  outputData :: "Identifier list"
  outputValues :: "nat list"
  startPos :: Position
  storedAdjoints :: "Gradient list"
  jacobie :: JacobianCountNonZerosRow

definition PreaccumulationHelper_new :: PreaccumulationHelper where
  "PreaccumulationHelper_new =
     \<lparr>inputData = [], outputData = [], outputValues = [],
      startPos = \<lparr>constantPos = 0, passivePos = 0, rhsIdentifiersPos = 0, statementPos = 0\<rparr>,
      storedAdjoints = [],
      jacobie = \<lparr>jac_values = [], jac_m = 0, jac_n = 0, nonZerosRowVector = []\<rparr>\<rparr>"

text \<open>
  What the helper calls and the sources do not hold: \<open>Algorithms::computeJacobian\<close>,
  and the two halves of the tape's \<open>resetTo\<close>.
\<close>

record Environment =
  computeJacobian ::
    "Position \<Rightarrow> Position \<Rightarrow> Identifier list \<Rightarrow> Identifier list \<Rightarrow> JacobianCountNonZerosRow \<Rightarrow> Tape
       \<Rightarrow> error + JacobianCountNonZerosRow \<times> Tape"
  internalResetPrimalValues :: "Position \<Rightarrow> Tape \<Rightarrow> error + Tape"
  Base_resetTo :: "Position \<Rightarrow> Tape \<Rightarrow> error + Tape"

definition resetTo :: "Environment \<Rightarrow> Position \<Rightarrow> Tape \<Rightarrow> error + Tape" where
  "resetTo env pos t =
     (case internalResetPrimalValues env pos t of
        Inl e \<Rightarrow> Inl e
      | Inr t' \<Rightarrow> Base_resetTo env pos t')"

definition addInputLogic :: "ActiveType \<Rightarrow> PreaccumulationHelper \<Rightarrow> PreaccumulationHelper" where
  "addInputLogic input h =
     (if 0 \<noteq> identifier input then h\<lparr>inputData := inputData h @ [identifier input]\<rparr> else h)"

fun addInputRecursive :: "ActiveType list \<Rightarrow> PreaccumulationHelper \<Rightarrow> PreaccumulationHelper" where
  "addInputRecursive [] h = h"
| "addInputRecursive (input # r) h = addInputRecursive r (addInputLogic input h)"

definition addOutputLogic :: "Memory \<Rightarrow> nat \<Rightarrow> PreaccumulationHelper \<Rightarrow> PreaccumulationHelper" where
  "addOutputLogic mem output h =
     (if 0 \<noteq> identifier (mem output)
      then h\<lparr>outputData := outputData h @ [identifier (mem output)],
             outputValues := outputValues h @ [output]\<rparr>
      else h)"

fun addOutputRecursive :: "Memory \<Rightarrow> nat list \<Rightarrow> PreaccumulationHelper \<Rightarrow> PreaccumulationHelper" where
  "addOutputRecursive mem [] h = h"
| "addOutputRecursive mem (output # r) h = addOutputRecursive mem r (addOutputLogic mem output h)"

definition start :: "ActiveType list \<Rightarrow> Tape \<Rightarrow> PreaccumulationHelper \<Rightarrow> PreaccumulationHelper" where
  "start inputs t h =
     (if active t then
        addInputRecursive inputs
          (h\<lparr>inputData := [], outputData := [], outputValues := [], startPos := getPosition t\<rparr>)
      else h)"

text \<open>The loop of \<open>storeInputAdjoints\<close>, from index \<open>i\<close> on.\<close>

function storeInputAdjoints_loop :: "Identifier list \<Rightarrow> nat \<Rightarrow> Gradient list \<times> Tape \<Rightarrow> error + Gradient list \<times> Tape" where
  "storeInputAdjoints_loop inputs i s =
     (case s of (stored, t) \<Rightarrow>
        if i < length inputs then
          (case gradientRead (inputs ! i) t of
             Inl e \<Rightarrow> Inl e
           | Inr (adjoint, t1) \<Rightarrow>
          (case vectorSet stored (int i) adjoint of
             Inl e \<Rightarrow> Inl e
           | Inr stored' \<Rightarrow>
          (case vectorSet (adjoints t1) (inputs ! i) 0 of
             Inl e \<Rightarrow> Inl e
           | Inr a \<Rightarrow> storeInputAdjoints_loop inputs (i + 1) (stored', t1\<lparr>adjoints := a\<rparr>))))
        else Inr s)"
  by pat_completeness auto
termination
  by (relation "measure (\<lambda>(inputs, i, s). length inputs - i)") auto

definition storeInputAdjoints :: "PreaccumulationHelper \<Rightarrow> Tape \<Rightarrow> error + PreaccumulationHelper \<times> Tape" where
  "storeInputAdjoints h t =
     (let stored = (if length (storedAdjoints h) < length (inputData h)
                    then vectorResize (length (inputData h)) (storedAdjoints h)
                    else storedAdjoints h)
      in case storeInputAdjoints_loop (inputData h) 0 (stored, t) of
           Inl e \<Rightarrow> Inl e
         | Inr (stored', t') \<Rightarrow> Inr (h\<lparr>storedAdjoints := stored'\<rparr>, t'))"

text \<open>The loop of \<open>restoreInputAdjoints\<close>, from index \<open>i\<close> on.\<close>

function restoreInputAdjoints_loop :: "Identifier list \<Rightarrow> Gradient list \<Rightarrow> nat \<Rightarrow> Tape \<Rightarrow> error + Tape" where
  "restoreInputAdjoints_loop inputs stored i t =
     (if i < length inputs then
        (case vectorGet stored (int i) of
           Inl e \<Rightarrow> Inl e
         | Inr g \<Rightarrow>
             (case gradientAssign (inputs ! i) g t of
                Inl e \<Rightarrow> Inl e
              | Inr t' \<Rightarrow> restoreInputAdjoints_loop inputs stored (i + 1) t'))
      else Inr t)"
  by pat_completeness auto
termination
  by (relation "measure (\<lambda>(inputs, stored, i, t). length inputs - i)") auto

definition restoreInputAdjoints :: "PreaccumulationHelper \<Rightarrow> Tape \<Rightarrow> error + Tape" where
  "restoreInputAdjoints h t = restoreInputAdjoints_loop (inputData h) (storedAdjoints h) 0 t"

text \<open>
  The innermost loop of \<open>doPreaccumulation\<close>, "push the rest of the Jacobians for the
  statement": it scans the row from column \<open>curIn\<close> and pushes nonzero entries until
  \<open>jacobiesForStatement\<close> of them are pushed. The result carries \<open>curIn\<close>.
\<close>

function doPreaccumulation_pushJacobies ::
  "JacobianCountNonZerosRow \<Rightarrow> Identifier list \<Rightarrow> nat \<Rightarrow> int \<Rightarrow> nat \<Rightarrow> Tape \<Rightarrow> error + Tape \<times> nat" where
  "doPreaccumulation_pushJacobies J inputs curOut jacobiesForStatement curIn t =
     (if jacobiesForStatement > 0 then
        (case jacobianGet J curOut curIn of
           Inl e \<Rightarrow> Inl e
         | Inr v \<Rightarrow>
             (if 0 \<noteq> v then
                (case vectorGet inputs (int curIn) of
                   Inl e \<Rightarrow> Inl e
                 | Inr index \<Rightarrow>
                     doPreaccumulation_pushJacobies J inputs curOut (jacobiesForStatement - 1)
                       (curIn + 1) (pushJacobiManual v 0 index t))
              else doPreaccumulation_pushJacobies J inputs curOut jacobiesForStatement
                     (curIn + 1) t))
      else Inr (t, curIn))"
  by pat_completeness auto
termination
proof (relation "measure (\<lambda>(J, inputs, curOut, k, curIn, t).
                   length (jac_values J) - computeIndex J curOut curIn)")
  show "wf (measure (\<lambda>(J, inputs, curOut, k, curIn, t).
                   length (jac_values J) - computeIndex J curOut curIn))"
    by simp
next
  fix J :: JacobianCountNonZerosRow and inputs :: "Identifier list" and curOut :: nat
    and k :: int and curIn :: nat and t :: Tape and v index
  assume "jacobianGet J curOut curIn = Inr v"
  then have "computeIndex J curOut curIn < length (jac_values J)"
    by (simp add: jacobianGet_def vectorGet_def split: if_splits)
  then show "((J, inputs, curOut, k - 1, curIn + 1, pushJacobiManual v 0 index t),
               (J, inputs, curOut, k, curIn, t))
      \<in> measure (\<lambda>(J, inputs, curOut, k, curIn, t).
                   length (jac_values J) - computeIndex J curOut curIn)"
    by (simp add: computeIndex_def)
next
  fix J :: JacobianCountNonZerosRow and inputs :: "Identifier list" and curOut :: nat
    and k :: int and curIn :: nat and t :: Tape and v
  assume "jacobianGet J curOut curIn = Inr v"
  then have "computeIndex J curOut curIn < length (jac_values J)"
    by (simp add: jacobianGet_def vectorGet_def split: if_splits)
  then show "((J, inputs, curOut, k, curIn + 1, t), (J, inputs, curOut, k, curIn, t))
      \<in> measure (\<lambda>(J, inputs, curOut, k, curIn, t).
                   length (jac_values J) - computeIndex J curOut curIn)"
    by (simp add: computeIndex_def)
qed

text \<open>
  The loop "push statements as long as there are non zeros left" for one output:
  \<open>v\<close> is the primal value of the output. The result carries \<open>lastIdentifier\<close>.
\<close>

function doPreaccumulation_pushStatements ::
  "JacobianCountNonZerosRow \<Rightarrow> Identifier list \<Rightarrow> nat \<Rightarrow> Real \<Rightarrow> int \<Rightarrow> bool \<Rightarrow> nat \<Rightarrow> Identifier \<Rightarrow> Tape
     \<Rightarrow> error + Tape \<times> Identifier" where
  "doPreaccumulation_pushStatements J inputs curOut v nonZerosLeft staggeringActive curIn
       lastIdentifier t =
     (if nonZerosLeft > 0 then
        (let jacobiesForStatement =
               (if nonZerosLeft > int MaxArgumentSize
                then (if staggeringActive then int MaxArgumentSize - 1 - 1
                      else int MaxArgumentSize - 1)
                else nonZerosLeft);
             storedIdentifier = lastIdentifier
         in case storeManual v lastIdentifier
                   (word_of_int (jacobiesForStatement + (if staggeringActive then 1 else 0))) t of
              Inl e \<Rightarrow> Inl e
            | Inr (t1, lastIdentifier') \<Rightarrow>
                (case doPreaccumulation_pushJacobies J inputs curOut jacobiesForStatement curIn
                        (if staggeringActive then pushJacobiManual 1 0 storedIdentifier t1 else t1) of
                   Inl e \<Rightarrow> Inl e
                 | Inr (t2, curIn') \<Rightarrow>
                     doPreaccumulation_pushStatements J inputs curOut v
                       (nonZerosLeft - jacobiesForStatement) True curIn' lastIdentifier' t2))
      else Inr (t, lastIdentifier))"
  by pat_completeness auto
termination
  by (relation "measure (\<lambda>(J, inputs, curOut, v, nonZerosLeft, stag, curIn, lastId, t).
                  nat nonZerosLeft)")
    (auto simp: MaxArgumentSize_def split: if_splits)

text \<open>
  The body of the loop over the outputs, "store the Jacobian matrix", for output
  \<open>curOut\<close>: a row with nonzero entries is pushed as statements and the output takes
  the last identifier; an output whose row counts no nonzero entry is destroyed.
\<close>

definition doPreaccumulation_storeRow ::
  "Identifier list \<Rightarrow> nat list \<Rightarrow> nat \<Rightarrow> JacobianCountNonZerosRow \<times> Tape \<times> Memory
     \<Rightarrow> error + JacobianCountNonZerosRow \<times> Tape \<times> Memory" where
  "doPreaccumulation_storeRow inputs outValues curOut s =
     (case s of (J, t, mem) \<Rightarrow>
        (case vectorGet outValues (int curOut) of
           Inl e \<Rightarrow> Inl e
         | Inr p \<Rightarrow>
        (case nonZerosRow J curOut of
           Inl e \<Rightarrow> Inl e
         | Inr nonZeros \<Rightarrow>
             (if 0 \<noteq> nonZeros then
                (case nonZerosRow_assign J curOut 0 of
                   Inl e \<Rightarrow> Inl e
                 | Inr J' \<Rightarrow>
                (case doPreaccumulation_pushStatements J' inputs curOut (primalValue (mem p))
                        nonZeros False 0 (identifier (mem p)) t of
                   Inl e \<Rightarrow> Inl e
                 | Inr (t', lastIdentifier) \<Rightarrow>
                     Inr (J', t', mem(p := (mem p)\<lparr>identifier := lastIdentifier\<rparr>))))
              else
                (case destroyIdentifier (mem p) t of
                   Inl e \<Rightarrow> Inl e
                 | Inr (t', v') \<Rightarrow> Inr (J, t', mem(p := v')))))))"

text \<open>The loop over the outputs, from output \<open>curOut\<close> on.\<close>

function doPreaccumulation_storeJacobian ::
  "Identifier list \<Rightarrow> Identifier list \<Rightarrow> nat list \<Rightarrow> nat
     \<Rightarrow> JacobianCountNonZerosRow \<times> Tape \<times> Memory \<Rightarrow> error + JacobianCountNonZerosRow \<times> Tape \<times> Memory" where
  "doPreaccumulation_storeJacobian inputs outputs outValues curOut s =
     (if curOut < length outputs then
        (case doPreaccumulation_storeRow inputs outValues curOut s of
           Inl e \<Rightarrow> Inl e
         | Inr s' \<Rightarrow> doPreaccumulation_storeJacobian inputs outputs outValues (curOut + 1) s')
      else Inr s)"
  by pat_completeness auto
termination
  by (relation "measure (\<lambda>(inputs, outputs, outValues, curOut, s). length outputs - curOut)") auto

definition doPreaccumulation ::
  "Environment \<Rightarrow> PreaccumulationHelper \<Rightarrow> Tape \<Rightarrow> Memory \<Rightarrow> error + PreaccumulationHelper \<times> Tape \<times> Memory" where
  "doPreaccumulation env h t mem =
     (let endPos = getPosition t;
          J = (if getM (jacobie h) \<noteq> length (outputData h) \<or> getN (jacobie h) \<noteq> length (inputData h)
               then JacobianCountNonZerosRow_resize (length (outputData h)) (length (inputData h))
                      (jacobie h)
               else jacobie h)
      in case computeJacobian env (startPos h) endPos (inputData h) (outputData h) J t of
           Inl e \<Rightarrow> Inl e
         | Inr (J1, t1) \<Rightarrow>
      (case resetTo env (startPos h) t1 of
           Inl e \<Rightarrow> Inl e
         | Inr t2 \<Rightarrow>
      (case doPreaccumulation_storeJacobian (inputData h) (outputData h) (outputValues h) 0
              (J1, t2, mem) of
           Inl e \<Rightarrow> Inl e
         | Inr (J2, t3, mem') \<Rightarrow> Inr (h\<lparr>jacobie := J2\<rparr>, t3, mem'))))"

text \<open>\<open>finish(storeAdjoints, outputs...)\<close>; the outputs are given by their addresses.\<close>

definition finish ::
  "Environment \<Rightarrow> bool \<Rightarrow> nat list \<Rightarrow> PreaccumulationHelper \<Rightarrow> Tape \<Rightarrow> Memory
     \<Rightarrow> error + PreaccumulationHelper \<times> Tape \<times> Memory" where
  "finish env storeAdjoints outputs h t mem =
     (if active t then
        (let h1 = addOutputRecursive mem outputs h
         in case (if storeAdjoints then storeInputAdjoints h1 t else Inr (h1, t)) of
              Inl e \<Rightarrow> Inl e
            | Inr (h2, t1) \<Rightarrow>
         (case doPreaccumulation env h2 t1 mem of
              Inl e \<Rightarrow> Inl e
            | Inr (h3, t2, mem') \<Rightarrow>
                (if storeAdjoints then
                   (case restoreInputAdjoints h3 t2 of
                      Inl e \<Rightarrow> Inl e
                    | Inr t3 \<Rightarrow> Inr (h3, t3, mem'))
                 else Inr (h3, t2, mem'))))
      else Inr (h, t, mem))"

section \<open>Properties of the Jacobian block\<close>

lemma vectorGet_nat: "k < length xs \<Longrightarrow> vectorGet xs (int k) = Inr (xs ! k)"
  by (simp add: vectorGet_def)

lemma vectorSet_nat: "k < length xs \<Longrightarrow> vectorSet xs (int k) v = Inr (xs[k := v])"
  by (simp add: vectorSet_def)

lemma computeIndex_in_range:
  assumes "i < jac_m J" and "j < jac_n J"
  shows "computeIndex J i j < jac_n J * jac_m J"
proof -
  have "i * jac_n J + j < i * jac_n J + jac_n J"
    using assms(2) by simp
  also have "\<dots> = Suc i * jac_n J"
    by simp
  also have "\<dots> \<le> jac_m J * jac_n J"
    using assms(1) by (intro mult_le_mono1) simp
  finally show ?thesis
    by (simp add: computeIndex_def mult.commute)
qed

lemma computeIndex_inj:
  assumes "j < jac_n J" and "j' < jac_n J"
    and "computeIndex J i j = computeIndex J i' j'"
  shows "i = i' \<and> j = j'"
proof -
  from assms(3) have eq: "i * jac_n J + j = i' * jac_n J + j'"
    by (simp add: computeIndex_def)
  have "(i * jac_n J + j) div jac_n J = i" "(i' * jac_n J + j') div jac_n J = i'"
    using assms(1,2) by simp_all
  with eq have "i = i'" by simp
  with eq show ?thesis by simp
qed

text \<open>
  C7. A Jacobian of dimensions \<open>m\<close> by \<open>n\<close> over a storage of \<open>n * m\<close> elements
  (what the constructor allocates) is laid out row by row: for \<open>i < m\<close> and \<open>j < n\<close>
  the read access returns the element at flat index \<open>i * n + j\<close>, the write access
  replaces exactly that element, the index lies inside the storage, and the next element
  of the same row is the next element of the storage.
\<close>

theorem jacobian_row_major:
  assumes "length (jac_values J) = jac_n J * jac_m J"
    and "i < jac_m J" and "j < jac_n J"
  shows "computeIndex J i j = i * jac_n J + j
    \<and> computeIndex J i j < length (jac_values J)
    \<and> jacobianGet J i j = Inr (jac_values J ! (i * jac_n J + j))
    \<and> jacobianSet J i j v = Inr (J\<lparr>jac_values := (jac_values J)[i * jac_n J + j := v]\<rparr>)
    \<and> (Suc j < jac_n J \<longrightarrow> computeIndex J i (Suc j) = Suc (computeIndex J i j))
    \<and> length (jac_values (Jacobian_new m n)) = n * m"
proof -
  have idx: "computeIndex J i j = i * jac_n J + j"
    by (simp add: computeIndex_def)
  have bound: "computeIndex J i j < length (jac_values J)"
    using computeIndex_in_range [OF assms(2,3)] assms(1) by simp
  have "jacobianGet J i j = Inr (jac_values J ! computeIndex J i j)"
    unfolding jacobianGet_def using bound by (rule vectorGet_nat)
  then have rd: "jacobianGet J i j = Inr (jac_values J ! (i * jac_n J + j))"
    by (simp only: idx)
  have "vectorSet (jac_values J) (int (computeIndex J i j)) v
      = Inr ((jac_values J)[computeIndex J i j := v])"
    using bound by (rule vectorSet_nat)
  then have wr: "jacobianSet J i j v
      = Inr (J\<lparr>jac_values := (jac_values J)[i * jac_n J + j := v]\<rparr>)"
    by (simp add: jacobianSet_def idx)
  have nxt: "computeIndex J i (Suc j) = Suc (computeIndex J i j)"
    by (simp add: computeIndex_def)
  have new: "length (jac_values (Jacobian_new m n)) = n * m"
    by (simp add: Jacobian_new_def)
  from idx bound rd wr nxt new show ?thesis
    by simp
qed

theorem jacobian_row_major_witness:
  "jacobianGet \<lparr>jac_values = [1, 2, 3, 4, 5, 6], jac_m = 2, jac_n = 3\<rparr> 1 2 = Inr 6
   \<and> jacobianSet \<lparr>jac_values = [1, 2, 3, 4, 5, 6], jac_m = 2, jac_n = 3\<rparr> 1 0 9
       = Inr \<lparr>jac_values = [1, 2, 3, 9, 5, 6], jac_m = 2, jac_n = 3\<rparr>"
  using jacobian_row_major [of "\<lparr>jac_values = [1, 2, 3, 4, 5, 6], jac_m = 2, jac_n = 3\<rparr>" 1 2 0]
    jacobian_row_major [of "\<lparr>jac_values = [1, 2, 3, 4, 5, 6], jac_m = 2, jac_n = 3\<rparr>" 1 0 9]
  by simp


section \<open>Recording and replay on concrete tapes\<close>

text \<open>
  The definitions that evaluate the recording of a statement, and those that evaluate the
  replay of an expression statement.
\<close>

lemmas recording_defs =
  registerInput_def store_def PrimalValueBaseTape_new_def checkPrimalSize_def
  resizePrimalVector_def IndexManager_new_def MaxArgumentSize_def StatementInputTag_def
  assignUnusedIndex_def
  assignIndex_def getLargestAssignedIndex_def vectorGet_def vectorSet_def vectorResize_def
  CODI_ENABLE_CHECK_def defaultConfig_def CountActiveArguments_eval_def
  CountActiveArguments_handleActive_def PushIdentfierPassiveAndConstant_eval_def
  PushIdentfierPassiveAndConstant_handleActive_def
  PushIdentfierPassiveAndConstant_handleConstant_def pushStmtData_def pushData_def
  reserveItems_def

lemmas replay_defs =
  gradientAssign_def gradient_def evaluate_def gradient_const_def checkAdjointSize_def
  resizeAdjointsVector_def getPosition_def callReverse_def statementEvaluateReverse_def
  statementEvaluateReverseFull_def statementEvaluateReverseInner_def isTotalZero_def
  IncrementReversalLogic_handleJacobianOnActive_def

section \<open>The adjoint vector\<close>

text \<open>
  C10. The const overload of \<open>gradient\<close> compares with \<open>>\<close>, where
  \<open>checkAdjointSize\<close> compares with \<open>>=\<close>: an identifier equal to the size of the
  adjoint vector passes the test and is read one element past the end. On a tape as the
  constructor leaves it (one adjoint), this is identifier 1. On a tape in use it is the
  identifier of the next variable: after \<open>x\<close> is registered and its adjoint is set,
  the adjoint vector ends at \<open>x\<close>, and the identifier that \<open>registerInput\<close> gives
  to \<open>z\<close> is the size of the vector.
\<close>

theorem gradient_const_reads_past_end:
  "gradient_const t (int (length (adjoints t))) = Inl OutOfBounds
   \<and> gradient_const (PrimalValueBaseTape_new cfg p) 1 = Inl OutOfBounds
   \<and> (\<exists>t1 x t2 t3 z.
         registerInput defaultConfig \<lparr>primalValue = v1, identifier = 0\<rparr>
            ((PrimalValueBaseTape_new defaultConfig p)\<lparr>active := True\<rparr>) = Inr (t1, x)
       \<and> gradientAssign (identifier x) 1 t1 = Inr t2
       \<and> registerInput defaultConfig \<lparr>primalValue = v2, identifier = 0\<rparr> t2 = Inr (t3, z)
       \<and> identifier z = int (length (adjoints t3))
       \<and> gradient_const t3 (identifier z) = Inl OutOfBounds)"
proof (intro conjI)
  show "gradient_const t (int (length (adjoints t))) = Inl OutOfBounds"
    by (simp add: gradient_const_def vectorGet_def)
  show "gradient_const (PrimalValueBaseTape_new cfg p) 1 = Inl OutOfBounds"
    by (simp add: gradient_const_def vectorGet_def PrimalValueBaseTape_new_def
        checkPrimalSize_def resizePrimalVector_def)
  show "\<exists>t1 x t2 t3 z.
         registerInput defaultConfig \<lparr>primalValue = v1, identifier = 0\<rparr>
            ((PrimalValueBaseTape_new defaultConfig p)\<lparr>active := True\<rparr>) = Inr (t1, x)
       \<and> gradientAssign (identifier x) 1 t1 = Inr t2
       \<and> registerInput defaultConfig \<lparr>primalValue = v2, identifier = 0\<rparr> t2 = Inr (t3, z)
       \<and> identifier z = int (length (adjoints t3))
       \<and> gradient_const t3 (identifier z) = Inl OutOfBounds"
    by (cases p) (simp_all add: recording_defs replay_defs Let_def)
qed

theorem gradient_const_reads_past_end_witness:
  "gradient_const (PrimalValueBaseTape_new defaultConfig Reuse) 1 = Inl OutOfBounds
   \<and> length (adjoints (PrimalValueBaseTape_new defaultConfig Reuse)) = 1"
  using gradient_const_reads_past_end [of "PrimalValueBaseTape_new defaultConfig Reuse"
      defaultConfig Reuse]
  by (simp add: PrimalValueBaseTape_new_def checkPrimalSize_def resizePrimalVector_def)

section \<open>Parameters of the tape\<close>

text \<open>
  The claim C8 at a concrete input: setting the largest assigned identifier on a new tape
  raises the exception.
\<close>

theorem setParameter_LargestIdentifier_raises:
  "setParameter (\<lambda>parameter v t. Inr t) LargestIdentifier 300
     (PrimalValueBaseTape_new defaultConfig Linear)
   = Inl (Exception ''Tried to set a get only option.'')"
  by (simp add: setParameter_def)

text \<open>
  C8, amended. Each of the seven parameters of the tape is read by \<open>getParameter\<close>.
  \<open>setParameter\<close> completes for six of them: it resizes the adjoint or the primal
  vector, or passes the size to the data stream. The largest assigned identifier can only
  be read: setting it raises "Tried to set a get only option."
\<close>

theorem parameters_get_and_set:
  "getParameter G AdjointSize t = Inr (length (adjoints t))
   \<and> getParameter G ConstantValuesSize t = Inr (length (constantValueData t))
   \<and> getParameter G LargestIdentifier t = Inr (nat (getLargestAssignedIndex (indexManager t)))
   \<and> getParameter G PassiveValuesSize t = Inr (length (passiveValueData t))
   \<and> getParameter G RhsIdentifiersSize t = Inr (length (rhsIdentiferData t))
   \<and> getParameter G PrimalSize t = Inr (length (primals t))
   \<and> getParameter G StatementSize t = Inr (length (statementData t))
   \<and> setParameter S AdjointSize v t = Inr (t\<lparr>adjoints := vectorResize v (adjoints t)\<rparr>)
   \<and> setParameter S ConstantValuesSize v t
       = Inr (t\<lparr>constantValueData := dataResize v (constantValueData t)\<rparr>)
   \<and> setParameter S PassiveValuesSize v t
       = Inr (t\<lparr>passiveValueData := dataResize v (passiveValueData t)\<rparr>)
   \<and> setParameter S RhsIdentifiersSize v t
       = Inr (t\<lparr>rhsIdentiferData := dataResize v (rhsIdentiferData t)\<rparr>)
   \<and> setParameter S PrimalSize v t = Inr (t\<lparr>primals := vectorResize v (primals t)\<rparr>)
   \<and> setParameter S StatementSize v t
       = Inr (t\<lparr>statementData := dataResize v (statementData t)\<rparr>)
   \<and> setParameter S LargestIdentifier v t = Inl (Exception ''Tried to set a get only option.'')"
  by (simp add: getParameter_def setParameter_def)

theorem parameters_get_and_set_witness:
  "getParameter (\<lambda>parameter t. Inr 0) AdjointSize (PrimalValueBaseTape_new defaultConfig Reuse)
     = Inr 1
   \<and> length (adjoints (PrimalValueBaseTape_new defaultConfig Reuse)) = 1
   \<and> setParameter (\<lambda>parameter v t. Inr t) LargestIdentifier 7
       (PrimalValueBaseTape_new defaultConfig Reuse)
     = Inl (Exception ''Tried to set a get only option.'')"
  using parameters_get_and_set [of "\<lambda>parameter t. Inr 0"
      "PrimalValueBaseTape_new defaultConfig Reuse" "\<lambda>parameter v t. Inr t" 7]
  by (simp add: PrimalValueBaseTape_new_def checkPrimalSize_def resizePrimalVector_def)

section \<open>Pruning of statements without active arguments\<close>

lemma CountActiveArguments_eval_mono: "n \<le> CountActiveArguments_eval cfg rhs n"
  unfolding CountActiveArguments_eval_def
proof (induction rhs arbitrary: n)
  case (BinaryExpression op a b)
  then show ?case by (metis ForEachTermLogic_eval.simps(3) le_trans)
qed (simp_all add: CountActiveArguments_handleActive_def)

lemma CountActiveArguments_eval_unchanged_iff:
  "CountActiveArguments_eval cfg rhs n = n \<longleftrightarrow>
     (\<forall>node \<in> set1_Expression rhs. \<not> CODI_ENABLE_CHECK (CheckZeroIndex cfg) (0 \<noteq> identifier node))"
proof (induction rhs arbitrary: n)
  case (ActiveLeaf x)
  then show ?case
    by (simp add: CountActiveArguments_eval_def CountActiveArguments_handleActive_def)
next
  case (ConstantLeaf x)
  then show ?case by (simp add: CountActiveArguments_eval_def)
next
  case (BinaryExpression op a b)
  have step: "CountActiveArguments_eval cfg (BinaryExpression op a b) n
      = CountActiveArguments_eval cfg b (CountActiveArguments_eval cfg a n)"
    by (simp add: CountActiveArguments_eval_def)
  show ?case
  proof
    assume eq: "CountActiveArguments_eval cfg (BinaryExpression op a b) n = n"
    have "n \<le> CountActiveArguments_eval cfg a n"
      by (rule CountActiveArguments_eval_mono)
    moreover have "CountActiveArguments_eval cfg a n
        \<le> CountActiveArguments_eval cfg b (CountActiveArguments_eval cfg a n)"
      by (rule CountActiveArguments_eval_mono)
    ultimately have "CountActiveArguments_eval cfg a n = n"
      and "CountActiveArguments_eval cfg b n = n"
      using eq step by auto
    then show "\<forall>node \<in> set1_Expression (BinaryExpression op a b).
        \<not> CODI_ENABLE_CHECK (CheckZeroIndex cfg) (0 \<noteq> identifier node)"
      using BinaryExpression.IH by auto
  next
    assume "\<forall>node \<in> set1_Expression (BinaryExpression op a b).
        \<not> CODI_ENABLE_CHECK (CheckZeroIndex cfg) (0 \<noteq> identifier node)"
    then have "CountActiveArguments_eval cfg a n = n" "CountActiveArguments_eval cfg b n = n"
      using BinaryExpression.IH by auto
    then show "CountActiveArguments_eval cfg (BinaryExpression op a b) n = n"
      using step by simp
  qed
qed

lemma freeIndex_live:
  assumes "index \<notin> set (freeIndices im)"
  shows "\<exists>im'. freeIndex im index = Inr (im', 0) \<and> policy im' = policy im
     \<and> largestAssignedIndex im' = largestAssignedIndex im"
  using assms by (cases "policy im") (auto simp: freeIndex_def)

text \<open>
  C2. On an active tape, when no argument of the right-hand side counts as active (with
  the zero-index check on: every active leaf carries the passive identifier 0) and the
  identifier of the left-hand side is not already on the free list, \<open>store\<close> frees
  that identifier and does nothing else to the tape: no data stream receives a record,
  so the position of the tape, which bounds every replay, is the one before the call. The
  left-hand side leaves with the value of the expression and the passive identifier 0.
\<close>

theorem store_prunes_passive_statement:
  assumes "active t"
    and "CountActiveArguments_eval cfg rhs 0 = 0"
    and "identifier lhs \<notin> set (freeIndices (indexManager t))"
  shows "\<exists>im. freeIndex (indexManager t) (identifier lhs) = Inr (im, 0)
      \<and> store cfg lhs rhs t
          = Inr (t\<lparr>indexManager := im\<rparr>, \<lparr>primalValue = getValue rhs, identifier = 0\<rparr>)
      \<and> getPosition (t\<lparr>indexManager := im\<rparr>) = getPosition t
      \<and> (CheckZeroIndex cfg \<longrightarrow> (\<forall>node \<in> set1_Expression rhs. identifier node = 0))"
proof -
  from freeIndex_live [OF assms(3)] obtain im where
    im: "freeIndex (indexManager t) (identifier lhs) = Inr (im, 0)" by blast
  have st: "store cfg lhs rhs t
      = Inr (t\<lparr>indexManager := im\<rparr>, \<lparr>primalValue = getValue rhs, identifier = 0\<rparr>)"
    using assms(1,2) by (simp add: store_def CODI_ENABLE_CHECK_def im)
  have pos: "getPosition (t\<lparr>indexManager := im\<rparr>) = getPosition t"
    by (simp add: getPosition_def)
  have leaves: "CheckZeroIndex cfg \<longrightarrow> (\<forall>node \<in> set1_Expression rhs. identifier node = 0)"
    using assms(2) CountActiveArguments_eval_unchanged_iff [of cfg rhs 0]
    by (auto simp: CODI_ENABLE_CHECK_def)
  from im st pos leaves show ?thesis by blast
qed

theorem store_prunes_passive_statement_witness:
  "store defaultConfig \<lparr>primalValue = 1, identifier = 256\<rparr>
     (BinaryExpression OperationMultiply (ConstantLeaf 2)
        (ActiveLeaf \<lparr>primalValue = 3, identifier = 0\<rparr>))
     \<lparr>indexManager = \<lparr>policy = Reuse, largestAssignedIndex = 256, freeIndices = []\<rparr>,
      statementData = [], rhsIdentiferData = [], passiveValueData = [],
      constantValueData = [], adjoints = [0], primals = [], primalsCopy = [], active = True\<rparr>
   = Inr (\<lparr>indexManager = \<lparr>policy = Reuse, largestAssignedIndex = 256, freeIndices = [256]\<rparr>,
           statementData = [], rhsIdentiferData = [], passiveValueData = [],
           constantValueData = [], adjoints = [0], primals = [], primalsCopy = [], active = True\<rparr>,
          \<lparr>primalValue = 6, identifier = 0\<rparr>)"
  using store_prunes_passive_statement [of
      "\<lparr>indexManager = \<lparr>policy = Reuse, largestAssignedIndex = 256, freeIndices = []\<rparr>,
        statementData = [], rhsIdentiferData = [], passiveValueData = [],
        constantValueData = [], adjoints = [0], primals = [], primalsCopy = [], active = True\<rparr>"
      defaultConfig
      "BinaryExpression OperationMultiply (ConstantLeaf 2)
         (ActiveLeaf \<lparr>primalValue = 3, identifier = 0\<rparr>)"
      "\<lparr>primalValue = 1, identifier = 256\<rparr>"]
  by (simp add: CountActiveArguments_eval_def CountActiveArguments_handleActive_def
      CODI_ENABLE_CHECK_def defaultConfig_def freeIndex_def)

section \<open>Replay of one statement\<close>

lemma statementEvaluateReverse_skip:
  assumes "SkipZeroAdjointEvaluation cfg" and "isTotalZero lhsAdjoint"
  shows "statementEvaluateReverse isTotalFinite cfg rhs d lhsAdjoint nPassive st
     = Inr (st\<lparr>curConstantPos := curConstantPos st - word_of_nat (NumberOfConstantTypeArguments rhs),
              curPassivePos := curPassivePos st - ucast nPassive,
              curRhsIdentifiersPos :=
                curRhsIdentifiersPos st - word_of_nat (NumberOfActiveTypeArguments rhs)\<rparr>)"
  using assms
  by (simp add: statementEvaluateReverse_def statementEvaluateReverseFull_def
      CODI_ENABLE_CHECK_def Let_def)

lemma JacobianStatementGenerator_skip:
  assumes "SkipZeroAdjointEvaluation cfg" and "isTotalZero lhsAdjoint"
  shows "JacobianStatementGenerator_statementEvaluateReverse cfg d lhsAdjoint nPassive st
     = Inr (st\<lparr>curPassivePos := curPassivePos st - ucast nPassive,
              curRhsIdentifiersPos := curRhsIdentifiersPos st - ucast nPassive\<rparr>)"
  using assms
  by (simp add: JacobianStatementGenerator_statementEvaluateReverse_def evalJacobianReverse_def
      CODI_ENABLE_CHECK_def Let_def)

text \<open>
  C4. With \<open>Config::SkipZeroAdjointEvaluation\<close> on, replaying a statement whose output
  adjoint is zero performs no accumulation. The routine of an expression statement only
  moves the three positions back, by the numbers of constant, passive and active
  arguments of the statement; the routine of a Jacobian statement moves the positions of
  the passive values and of the identifiers back by the number of stored pairs. Whatever
  the handle, the adjoint vector and the primal vector come back as they were.
\<close>

theorem skip_zero_adjoint_statement:
  assumes "SkipZeroAdjointEvaluation cfg" and "isTotalZero lhsAdjoint"
  shows "statementEvaluateReverse isTotalFinite cfg rhs d lhsAdjoint nPassive st
       = Inr (st\<lparr>curConstantPos :=
                   curConstantPos st - word_of_nat (NumberOfConstantTypeArguments rhs),
                curPassivePos := curPassivePos st - ucast nPassive,
                curRhsIdentifiersPos :=
                   curRhsIdentifiersPos st - word_of_nat (NumberOfActiveTypeArguments rhs)\<rparr>)
    \<and> JacobianStatementGenerator_statementEvaluateReverse cfg d lhsAdjoint nPassive st
       = Inr (st\<lparr>curPassivePos := curPassivePos st - ucast nPassive,
                curRhsIdentifiersPos := curRhsIdentifiersPos st - ucast nPassive\<rparr>)
    \<and> (\<exists>st'. callReverse isTotalFinite cfg h d lhsAdjoint nPassive st = Inr st'
          \<and> adjointVector st' = adjointVector st \<and> primalVector st' = primalVector st)"
proof -
  note e = statementEvaluateReverse_skip [OF assms, of isTotalFinite _ d nPassive st]
  note j = JacobianStatementGenerator_skip [OF assms, of d nPassive st]
  have "\<exists>st'. callReverse isTotalFinite cfg h d lhsAdjoint nPassive st = Inr st'
      \<and> adjointVector st' = adjointVector st \<and> primalVector st' = primalVector st"
    by (cases h) (simp_all add: callReverse_def e j)
  with e j show ?thesis by blast
qed

theorem skip_zero_adjoint_statement_witness:
  "statementEvaluateReverse (\<lambda>x. True) defaultConfig
     (BinaryExpression OperationMultiply (ConstantLeaf ()) (ActiveLeaf ()))
     \<lparr>constantValues = [2], passiveValues = [], rhsIdentifiers = [256]\<rparr> 0 0
     \<lparr>primalVector = replicate 257 0, adjointVector = replicate 257 5,
      curConstantPos = 1, curPassivePos = 0, curRhsIdentifiersPos = 1\<rparr>
   = Inr \<lparr>primalVector = replicate 257 0, adjointVector = replicate 257 5,
          curConstantPos = 0, curPassivePos = 0, curRhsIdentifiersPos = 0\<rparr>"
  using skip_zero_adjoint_statement [of defaultConfig 0 "\<lambda>x. True"
      "BinaryExpression OperationMultiply (ConstantLeaf ()) (ActiveLeaf ())"
      "\<lparr>constantValues = [2], passiveValues = [], rhsIdentifiers = [256]\<rparr>" 0
      "\<lparr>primalVector = replicate 257 0, adjointVector = replicate 257 5,
        curConstantPos = 1, curPassivePos = 0, curRhsIdentifiersPos = 1\<rparr>"]
  by (simp add: defaultConfig_def isTotalZero_def)

section \<open>Reverse accumulation\<close>





lemma accumulatePairs_length [simp]:
  "length (accumulatePairs g pairs adj) = length adj"
  by (induction pairs arbitrary: adj) auto














section \<open>Coefficients that are not finite\<close>

text \<open>
  C5, as stated, fails for the pairs that are stored on the tape. A statement pushed with
  \<open>storeManual\<close> and \<open>pushJacobiManual\<close> is replayed by
  \<open>JacobianStatementGenerator::evalJacobianReverse\<close>, which does not consult
  \<open>Config::IgnoreInvalidJacobies\<close>. With the policy on and the finiteness test
  \<open>\<bar>x\<bar> < 2 ^ 1024\<close>, a statement with the one stored pair
  \<open>(2 ^ 1024, x)\<close> and the output adjoint 1 changes the adjoint of \<open>x\<close>
  from 0 to \<open>2 ^ 1024\<close>: in the replay routine of the statement alone, and in
  \<open>evaluate\<close> on a tape where the statement was recorded.
\<close>

theorem manual_jacobian_statement_not_checked:
  "\<not> (\<bar>2 ^ 1024 :: real\<bar> < 2 ^ 1024)
   \<and> JacobianStatementGenerator_statementEvaluateReverse
        (defaultConfig\<lparr>IgnoreInvalidJacobies := True\<rparr>)
        \<lparr>constantValues = [], passiveValues = [2 ^ 1024], rhsIdentifiers = [1]\<rparr> 1 1
        \<lparr>primalVector = [0, 0], adjointVector = [0, 0], curConstantPos = 0, curPassivePos = 1,
         curRhsIdentifiersPos = 1\<rparr>
      = Inr \<lparr>primalVector = [0, 0], adjointVector = [0, 2 ^ 1024], curConstantPos = 0,
             curPassivePos = 0, curRhsIdentifiersPos = 0\<rparr>
   \<and> (\<exists>t1 x t2 y t3 t4.
         registerInput (defaultConfig\<lparr>IgnoreInvalidJacobies := True\<rparr>)
            \<lparr>primalValue = 3, identifier = 0\<rparr>
            ((PrimalValueBaseTape_new (defaultConfig\<lparr>IgnoreInvalidJacobies := True\<rparr>) Linear)
               \<lparr>active := True\<rparr>) = Inr (t1, x)
       \<and> storeManual 0 0 1 t1 = Inr (t2, y)
       \<and> gradientAssign y 1 (pushJacobiManual (2 ^ 1024) 0 (identifier x) t2) = Inr t3
       \<and> evaluate (\<lambda>x. \<bar>x\<bar> < 2 ^ 1024) (defaultConfig\<lparr>IgnoreInvalidJacobies := True\<rparr>)
            (getPosition t3)
            (getPosition
               (PrimalValueBaseTape_new (defaultConfig\<lparr>IgnoreInvalidJacobies := True\<rparr>) Linear))
            t3 = Inr t4
       \<and> gradient_const t3 (identifier x) = Inr 0
       \<and> gradient_const t4 (identifier x) = Inr (2 ^ 1024))"
  by (simp add: recording_defs replay_defs Let_def storeManual_def pushJacobiManual_def
      jacobianExpressions_def JacobianStatementGenerator_statementEvaluateReverse_def
      evalJacobianReverse_def internalEvaluateReverseStack.simps)

text \<open>
  C5, amended. With \<open>Config::IgnoreInvalidJacobies\<close> on, a coefficient that is not
  totally finite and that the replay of an expression statement computes for an active
  argument is skipped in both directions: the reverse handler returns the adjoint
  vector and the forward handler the tangent exactly as they received them, as if the
  pair were not there. The check is off by default, and with the check off the update is
  performed whatever the coefficient is.
\<close>

theorem invalid_jacobian_policy:
  "(IgnoreInvalidJacobies cfg \<and> \<not> isTotalFinite jacobian \<longrightarrow>
      IncrementReversalLogic_handleJacobianOnActive isTotalFinite cfg lhsAdjoint node jacobian
          adjointVec = Inr adjointVec
      \<and> IncrementForwardLogic_handleJacobianOnActive isTotalFinite cfg adjointVec node jacobian
          lhsTangent = Inr lhsTangent)
   \<and> \<not> IgnoreInvalidJacobies defaultConfig
   \<and> IncrementReversalLogic_handleJacobianOnActive isTotalFinite defaultConfig lhsAdjoint node
        jacobian adjointVec
      = (case vectorGet adjointVec (identifier node) of
           Inl e \<Rightarrow> Inl e
         | Inr g \<Rightarrow> vectorSet adjointVec (identifier node) (g + jacobian * lhsAdjoint))
   \<and> IncrementForwardLogic_handleJacobianOnActive isTotalFinite defaultConfig adjointVec node
        jacobian lhsTangent
      = (case vectorGet adjointVec (identifier node) of
           Inl e \<Rightarrow> Inl e
         | Inr g \<Rightarrow> Inr (lhsTangent + jacobian * g))"
  by (simp add: IncrementReversalLogic_handleJacobianOnActive_def
      IncrementForwardLogic_handleJacobianOnActive_def CODI_ENABLE_CHECK_def defaultConfig_def)

theorem invalid_jacobian_policy_witness:
  "IncrementReversalLogic_handleJacobianOnActive (\<lambda>x. \<bar>x\<bar> < 2 ^ 1024)
      (defaultConfig\<lparr>IgnoreInvalidJacobies := True\<rparr>) 1
      \<lparr>primalValue = 3, identifier = 1\<rparr> (2 ^ 1024) [0, 7] = Inr [0, 7]
   \<and> IncrementForwardLogic_handleJacobianOnActive (\<lambda>x. \<bar>x\<bar> < 2 ^ 1024)
      (defaultConfig\<lparr>IgnoreInvalidJacobies := True\<rparr>) [0, 7]
      \<lparr>primalValue = 3, identifier = 1\<rparr> (2 ^ 1024) 4 = Inr 4"
  using invalid_jacobian_policy [of "defaultConfig\<lparr>IgnoreInvalidJacobies := True\<rparr>"
      "\<lambda>x. \<bar>x\<bar> < 2 ^ 1024" "2 ^ 1024" 1 "\<lparr>primalValue = 3, identifier = 1\<rparr>" "[0, 7]" 4]
  by simp

section \<open>Preaccumulation: pushing the Jacobian as statements\<close>

declare doPreaccumulation_storeJacobian.simps [simp del]
declare doPreaccumulation_pushStatements.simps [simp del]
declare doPreaccumulation_pushJacobies.simps [simp del]

lemma storeManual_error: "storeManual v index argSize t = Inl e \<Longrightarrow> e = OutOfBounds"
  by (auto simp: storeManual_def vectorGet_def vectorSet_def Let_def
      split: prod.splits sum.splits if_splits)

lemma jacobianExpressions_255: "vectorGet jacobianExpressions 255 = Inl OutOfBounds"
  by (simp add: vectorGet_def jacobianExpressions_def MaxArgumentSize_def)

lemma storeManual_255: "storeManual v index 255 t = Inl OutOfBounds"
  by (simp add: storeManual_def Let_def jacobianExpressions_255 split: prod.splits sum.splits)
    (auto simp: vectorGet_def)

lemma pushJacobies_nonzero_run:
  assumes "\<And>j. curIn \<le> j \<Longrightarrow> j < curIn + nat k \<Longrightarrow>
      (\<exists>c. jacobianGet J curOut j = Inr c \<and> c \<noteq> 0) \<and> j < length inputs"
  shows "\<exists>t'. doPreaccumulation_pushJacobies J inputs curOut k curIn t = Inr (t', curIn + nat k)
     \<and> indexManager t' = indexManager t \<and> primals t' = primals t
     \<and> statementData t' = statementData t"
  using assms
proof (induction "nat k" arbitrary: k curIn t)
  case 0
  then have "k \<le> 0" by simp
  then show ?case
    by (subst doPreaccumulation_pushJacobies.simps) simp
next
  case (Suc m)
  then have k: "0 < k" "m = nat (k - 1)" by linarith+
  from Suc.prems [of curIn] k obtain c where
    c: "jacobianGet J curOut curIn = Inr c" "c \<noteq> 0" "curIn < length inputs"
    by auto
  have "\<exists>t'. doPreaccumulation_pushJacobies J inputs curOut (k - 1) (curIn + 1)
          (pushJacobiManual c 0 (inputs ! curIn) t) = Inr (t', (curIn + 1) + nat (k - 1))
     \<and> indexManager t' = indexManager (pushJacobiManual c 0 (inputs ! curIn) t)
     \<and> primals t' = primals (pushJacobiManual c 0 (inputs ! curIn) t)
     \<and> statementData t' = statementData (pushJacobiManual c 0 (inputs ! curIn) t)"
  proof (rule Suc.hyps(1) [OF k(2)])
    fix j assume "curIn + 1 \<le> j" "j < curIn + 1 + nat (k - 1)"
    then show "(\<exists>c. jacobianGet J curOut j = Inr c \<and> c \<noteq> 0) \<and> j < length inputs"
      using Suc.prems [of j] k by auto
  qed
  moreover have "curIn + 1 + nat (k - 1) = curIn + nat k"
    using k by linarith
  ultimately show ?case
    using c k
    by (subst doPreaccumulation_pushJacobies.simps)
      (auto simp: vectorGet_def pushJacobiManual_def)
qed

lemma pushStatements_508:
  "doPreaccumulation_pushStatements
       \<lparr>jac_values = replicate 508 1, jac_m = 1, jac_n = 508, nonZerosRowVector = [0]\<rparr>
       (map int [256..<764]) 0 v 508 False 0 lastIdentifier t = Inl OutOfBounds"
proof -
  let ?J = "\<lparr>jac_values = replicate 508 1, jac_m = 1, jac_n = 508, nonZerosRowVector = [0]\<rparr>"
  let ?inputs = "map int [256..<764]"
  have row: "(\<exists>c. jacobianGet ?J 0 j = Inr c \<and> c \<noteq> 0) \<and> j < length ?inputs" if "j < 508" for j
    using that by (simp add: jacobianGet_def computeIndex_def vectorGet_def)
  show ?thesis
  proof (cases "storeManual v lastIdentifier 254 t")
    case (Inl e)
    then have "e = OutOfBounds" by (rule storeManual_error)
    with Inl show ?thesis
      by (subst doPreaccumulation_pushStatements.simps) (simp add: MaxArgumentSize_def)
  next
    case (Inr r)
    obtain t1 id1 where r: "r = (t1, id1)" by (cases r)
    have "\<exists>t'. doPreaccumulation_pushJacobies ?J ?inputs 0 254 0 t1 = Inr (t', 0 + nat 254)
       \<and> indexManager t' = indexManager t1 \<and> primals t' = primals t1
       \<and> statementData t' = statementData t1"
      by (rule pushJacobies_nonzero_run) (use row in auto)
    then obtain t2 where t2: "doPreaccumulation_pushJacobies ?J ?inputs 0 254 0 t1 = Inr (t2, 254)"
      by auto
    have second: "doPreaccumulation_pushStatements ?J ?inputs 0 v 254 True 254 id1 t2
        = Inl OutOfBounds"
      by (subst doPreaccumulation_pushStatements.simps)
        (simp add: MaxArgumentSize_def storeManual_255)
    show ?thesis
      using Inr r t2 second
      by (subst doPreaccumulation_pushStatements.simps) (simp add: MaxArgumentSize_def)
  qed
qed

lemma pushStatements_255_staggered:
  "doPreaccumulation_pushStatements J inputs curOut v 255 True curIn lastIdentifier t
     = (case storeManual v lastIdentifier 0 t of
          Inl e \<Rightarrow> Inl e
        | Inr (t1, lastIdentifier') \<Rightarrow>
            (case doPreaccumulation_pushJacobies J inputs curOut 255 curIn
                    (pushJacobiManual 1 0 lastIdentifier t1) of
               Inl e \<Rightarrow> Inl e
             | Inr (t2, curIn') \<Rightarrow> Inr (t2, lastIdentifier')))"
proof -
  have stop: "doPreaccumulation_pushStatements J inputs curOut v 0 True c i t' = Inr (t', i)"
    for c i t'
    by (subst doPreaccumulation_pushStatements.simps) simp
  have w: "(256 :: ArgumentSize) = 0"
    by simp
  show ?thesis
    by (subst doPreaccumulation_pushStatements.simps)
      (simp add: MaxArgumentSize_def stop w split: sum.splits prod.splits)
qed

lemma storeRow_508:
  "doPreaccumulation_storeRow (map int [256..<764]) [q] 0
      (\<lparr>jac_values = replicate 508 1, jac_m = 1, jac_n = 508, nonZerosRowVector = [508]\<rparr>, t, mem)
    = Inl OutOfBounds"
  by (simp add: doPreaccumulation_storeRow_def vectorGet_def nonZerosRow_def
      nonZerosRow_assign_def vectorSet_def pushStatements_508 del: upt_rec_numeral One_nat_def)

text \<open>
  C3. The chain of statements of a row with 508 nonzero entries: the first statement is
  capped at 254 entries; the 254 entries left do not exceed \<open>MaxArgumentSize\<close>, so the
  second statement takes them all and, with the pair for the staggering, asks
  \<open>storeManual\<close> for 255 arguments, whose handle lies one past the end of
  \<open>jacobianExpressions\<close>. Whatever the tape, the chain is not completed, and neither
  is the body of the loop over the outputs for that row. With 255 entries left while
  staggering, the count 256 wraps to 0 in \<open>uint8_t\<close>: the statement is stored with
  no arguments and 256 pairs are pushed after it.
\<close>

theorem staggered_chain_overruns_handle_table:
  "doPreaccumulation_pushStatements
       \<lparr>jac_values = replicate 508 1, jac_m = 1, jac_n = 508, nonZerosRowVector = [0]\<rparr>
       (map int [256..<764]) 0 v 508 False 0 lastIdentifier t = Inl OutOfBounds
   \<and> doPreaccumulation_storeRow (map int [256..<764]) [q] 0
       (\<lparr>jac_values = replicate 508 1, jac_m = 1, jac_n = 508, nonZerosRowVector = [508]\<rparr>, t, mem)
     = Inl OutOfBounds
   \<and> storeManual v lastIdentifier 255 t = Inl OutOfBounds
   \<and> doPreaccumulation_pushStatements J inputs curOut v 255 True curIn lastIdentifier t
     = (case storeManual v lastIdentifier 0 t of
          Inl e \<Rightarrow> Inl e
        | Inr (t1, lastIdentifier') \<Rightarrow>
            (case doPreaccumulation_pushJacobies J inputs curOut 255 curIn
                    (pushJacobiManual 1 0 lastIdentifier t1) of
               Inl e \<Rightarrow> Inl e
             | Inr (t2, curIn') \<Rightarrow> Inr (t2, lastIdentifier')))"
  using pushStatements_508 [of v lastIdentifier t] storeRow_508 [of q t mem]
    storeManual_255 [of v lastIdentifier t]
    pushStatements_255_staggered [of J inputs curOut v curIn lastIdentifier t]
  by (simp del: upt_rec_numeral One_nat_def)

text \<open>
  The run of \<open>finish\<close> for one output with the identifier 764 and the inputs 256 to
  763, when the Jacobian of the region is a row of 508 ones.
\<close>

theorem staggered_chain_overruns_handle_table_witness:
  "finish
     \<lparr>computeJacobian = (\<lambda>startP endP inputs outputs J t.
         Inr (\<lparr>jac_values = replicate 508 1, jac_m = 1, jac_n = 508, nonZerosRowVector = [508]\<rparr>, t)),
      internalResetPrimalValues = (\<lambda>pos t. Inr t),
      Base_resetTo = (\<lambda>pos t. Inr t)\<rparr>
     False [0] (PreaccumulationHelper_new\<lparr>inputData := map int [256..<764]\<rparr>)
     \<lparr>indexManager = \<lparr>policy = Reuse, largestAssignedIndex = 764, freeIndices = []\<rparr>,
      statementData = [], rhsIdentiferData = [], passiveValueData = [],
      constantValueData = [], adjoints = [0], primals = replicate 765 0, primalsCopy = [],
      active = True\<rparr>
     (\<lambda>p. \<lparr>primalValue = 7, identifier = 764\<rparr>)
   = Inl OutOfBounds"
  using staggered_chain_overruns_handle_table [where q = 0
      and t = "\<lparr>indexManager = \<lparr>policy = Reuse, largestAssignedIndex = 764, freeIndices = []\<rparr>,
        statementData = [], rhsIdentiferData = [], passiveValueData = [],
        constantValueData = [], adjoints = [0], primals = replicate 765 0, primalsCopy = [],
        active = True\<rparr>"
      and mem = "\<lambda>p. \<lparr>primalValue = 7, identifier = 764\<rparr>"]
  by (simp add: finish_def addOutputLogic_def PreaccumulationHelper_new_def doPreaccumulation_def
      resetTo_def getM_def getN_def getPosition_def Let_def
      doPreaccumulation_storeJacobian.simps del: upt_rec_numeral One_nat_def)

section \<open>Preaccumulation: an output with 255 nonzero entries\<close>

lemma pushStatements_255_first:
  "doPreaccumulation_pushStatements J inputs curOut v 255 False curIn lastIdentifier t
     = Inl OutOfBounds"
  by (subst doPreaccumulation_pushStatements.simps) (simp add: MaxArgumentSize_def storeManual_255)

text \<open>
  C6. An output whose row counts 255 nonzero entries is not re-emitted. The count does not
  exceed \<open>MaxArgumentSize\<close>, so the statement is not capped, and \<open>storeManual\<close> is
  asked for 255 arguments: the handle \<open>jacobianExpressions[255]\<close> lies one past the end
  of the table, whose last entry is the handle for 254 arguments. Whatever the tape, the
  Jacobian, the inputs and the variable, the body of the loop over the outputs does not
  complete for that output: no statement is stored for it and it receives no identifier.
\<close>

theorem row_of_255_nonzeros_is_not_stored:
  assumes "curOut < length outValues"
    and "nonZerosRow J curOut = Inr 255"
  shows "doPreaccumulation_storeRow inputs outValues curOut (J, t, mem) = Inl OutOfBounds"
proof -
  from assms(1) have p: "vectorGet outValues (int curOut) = Inr (outValues ! curOut)"
    by (rule vectorGet_nat)
  from assms(2) have "curOut < length (nonZerosRowVector J)"
    by (simp add: nonZerosRow_def vectorGet_def split: if_splits)
  then have a: "nonZerosRow_assign J curOut 0
      = Inr (J\<lparr>nonZerosRowVector := (nonZerosRowVector J)[curOut := 0]\<rparr>)"
    by (simp add: nonZerosRow_assign_def vectorSet_nat)
  show ?thesis
    by (simp add: doPreaccumulation_storeRow_def p assms(2) a pushStatements_255_first)
qed

text \<open>
  The run of \<open>finish\<close> for one output with the identifier 511 and the inputs 256 to
  510, when the Jacobian of the region is a row of 255 ones.
\<close>

theorem row_of_255_nonzeros_is_not_stored_witness:
  "finish
     \<lparr>computeJacobian = (\<lambda>startP endP inputs outputs J t.
         Inr (\<lparr>jac_values = replicate 255 1, jac_m = 1, jac_n = 255, nonZerosRowVector = [255]\<rparr>, t)),
      internalResetPrimalValues = (\<lambda>pos t. Inr t),
      Base_resetTo = (\<lambda>pos t. Inr t)\<rparr>
     False [0] (PreaccumulationHelper_new\<lparr>inputData := map int [256..<511]\<rparr>)
     \<lparr>indexManager = \<lparr>policy = Reuse, largestAssignedIndex = 511, freeIndices = []\<rparr>,
      statementData = [], rhsIdentiferData = [], passiveValueData = [],
      constantValueData = [], adjoints = [0], primals = replicate 512 0, primalsCopy = [],
      active = True\<rparr>
     (\<lambda>p. \<lparr>primalValue = 7, identifier = 511\<rparr>)
   = Inl OutOfBounds"
  using row_of_255_nonzeros_is_not_stored [where curOut = 0 and outValues = "[0]"
      and J = "\<lparr>jac_values = replicate 255 1, jac_m = 1, jac_n = 255, nonZerosRowVector = [255]\<rparr>"
      and inputs = "map int [256..<511]"
      and t = "\<lparr>indexManager = \<lparr>policy = Reuse, largestAssignedIndex = 511, freeIndices = []\<rparr>,
        statementData = [], rhsIdentiferData = [], passiveValueData = [],
        constantValueData = [], adjoints = [0], primals = replicate 512 0, primalsCopy = [],
        active = True\<rparr>"
      and mem = "\<lambda>p. \<lparr>primalValue = 7, identifier = 511\<rparr>"]
  by (simp add: finish_def addOutputLogic_def PreaccumulationHelper_new_def doPreaccumulation_def
      resetTo_def getM_def getN_def getPosition_def Let_def nonZerosRow_def vectorGet_def
      doPreaccumulation_storeJacobian.simps del: upt_rec_numeral One_nat_def)

section \<open>Preaccumulation: passive and active outputs\<close>

lemma assignIndex_valid:
  assumes "assignIndex im index = (g, im', index')" and "IndexManager_valid im"
  shows "IndexManager_valid im' \<and> index' \<noteq> 0"
  using assms
  by (cases "policy im")
    (auto simp: assignIndex_def assignUnusedIndex_def IndexManager_valid_def
      split: if_splits list.splits)

lemma freeIndex_valid:
  assumes "freeIndex im index = Inr (im', index')" and "IndexManager_valid im"
  shows "IndexManager_valid im' \<and> index' = 0"
  using assms
  by (cases "policy im") (auto simp: freeIndex_def IndexManager_valid_def split: if_splits)

lemma storeManual_result:
  assumes "storeManual v index argSize t = Inr (t', index')"
  shows "\<exists>stmt. statementData t' = statementData t @ [stmt] \<and> lhsIdentifier stmt = index'
     \<and> rhsIdentiferData t' = rhsIdentiferData t \<and> passiveValueData t' = passiveValueData t
     \<and> (IndexManager_valid (indexManager t) \<longrightarrow>
          IndexManager_valid (indexManager t') \<and> index' \<noteq> 0)"
  using assms assignIndex_valid [of "indexManager t" index]
  by (auto simp: storeManual_def Let_def pushStmtData_def pushData_def reserveItems_def
      split: prod.splits sum.splits)

lemma pushJacobies_frame:
  "doPreaccumulation_pushJacobies J inputs curOut k curIn t = Inr (t', curIn') \<Longrightarrow>
     statementData t' = statementData t \<and> indexManager t' = indexManager t"
proof (induction J inputs curOut k curIn t rule: doPreaccumulation_pushJacobies.induct)
  case (1 J inputs curOut k curIn t)
  show ?case
  proof (cases "k > 0")
    case False
    with "1.prems" show ?thesis
      by (subst (asm) doPreaccumulation_pushJacobies.simps) simp
  next
    case True
    with "1.prems" obtain v where v: "jacobianGet J curOut curIn = Inr v"
      by (subst (asm) doPreaccumulation_pushJacobies.simps) (auto split: sum.splits)
    show ?thesis
    proof (cases "0 \<noteq> v")
      case nz: True
      with "1.prems" True v obtain index where
        i: "vectorGet inputs (int curIn) = Inr index"
        and r: "doPreaccumulation_pushJacobies J inputs curOut (k - 1) (curIn + 1)
                  (pushJacobiManual v 0 index t) = Inr (t', curIn')"
        by (subst (asm) doPreaccumulation_pushJacobies.simps) (auto split: sum.splits)
      from "1.IH"(1) [OF True v nz i r] show ?thesis
        by (simp add: pushJacobiManual_def)
    next
      case z: False
      with "1.prems" True v have
        r: "doPreaccumulation_pushJacobies J inputs curOut k (curIn + 1) t = Inr (t', curIn')"
        by (subst (asm) doPreaccumulation_pushJacobies.simps) (auto split: sum.splits)
      from "1.IH"(2) [OF True v z r] show ?thesis .
    qed
  qed
qed

lemma pushStatements_result:
  "doPreaccumulation_pushStatements J inputs curOut v nonZerosLeft stag curIn lastIdentifier t
      = Inr (t', lastIdentifier') \<Longrightarrow>
   (0 < nonZerosLeft \<longrightarrow>
      length (statementData t) < length (statementData t')
      \<and> lhsIdentifier (last (statementData t')) = lastIdentifier'
      \<and> (IndexManager_valid (indexManager t) \<longrightarrow> lastIdentifier' \<noteq> 0))
   \<and> (nonZerosLeft \<le> 0 \<longrightarrow> t' = t \<and> lastIdentifier' = lastIdentifier)
   \<and> length (statementData t) \<le> length (statementData t')
   \<and> (IndexManager_valid (indexManager t) \<longrightarrow> IndexManager_valid (indexManager t'))"
proof (induction J inputs curOut v nonZerosLeft stag curIn lastIdentifier t
    rule: doPreaccumulation_pushStatements.induct)
  case (1 J inputs curOut v nonZerosLeft stag curIn lastIdentifier t)
  show ?case
  proof (cases "nonZerosLeft > 0")
    case False
    with "1.prems" show ?thesis
      by (subst (asm) doPreaccumulation_pushStatements.simps) simp
  next
    case True
    define k where "k = (if nonZerosLeft > int MaxArgumentSize
                then (if stag then int MaxArgumentSize - 1 - 1
                      else int MaxArgumentSize - 1)
                else nonZerosLeft)"
    from "1.prems" True obtain t1 id1 t2 curIn' where
      sm: "storeManual v lastIdentifier (word_of_int (k + (if stag then 1 else 0))) t = Inr (t1, id1)"
      and pj: "doPreaccumulation_pushJacobies J inputs curOut k curIn
                 (if stag then pushJacobiManual 1 0 lastIdentifier t1 else t1) = Inr (t2, curIn')"
      and r: "doPreaccumulation_pushStatements J inputs curOut v (nonZerosLeft - k) True curIn' id1 t2
                 = Inr (t', lastIdentifier')"
      by (subst (asm) doPreaccumulation_pushStatements.simps)
        (auto simp: Let_def k_def split: sum.splits prod.splits)
    from storeManual_result [OF sm] obtain stmt where
      s1: "statementData t1 = statementData t @ [stmt]" "lhsIdentifier stmt = id1"
      and v1: "IndexManager_valid (indexManager t) \<longrightarrow>
          IndexManager_valid (indexManager t1) \<and> id1 \<noteq> 0"
      by blast
    from pushJacobies_frame [OF pj] have
      s2: "statementData t2 = statementData t1" "indexManager t2 = indexManager t1"
      by (auto simp: pushJacobiManual_def split: if_splits)
    note ih = "1.IH" [OF True k_def refl sm refl pj refl r]
    show ?thesis
    proof (cases "0 < nonZerosLeft - k")
      case again: True
      with ih s1 s2 v1 True show ?thesis by auto
    next
      case last: False
      with ih have "t' = t2" "lastIdentifier' = id1" by auto
      with s1 s2 v1 True show ?thesis by auto
    qed
  qed
qed

lemma freeIndex_zero:
  assumes "freeIndex im index = Inr (im', index')"
  shows "index' = 0"
  using assms by (cases "policy im") (auto simp: freeIndex_def split: if_splits)

lemma destroyIdentifier_result:
  assumes "destroyIdentifier v t = Inr (t', v')"
  shows "identifier v' = 0 \<and> getPosition t' = getPosition t
    \<and> (IndexManager_valid (indexManager t) \<longrightarrow> IndexManager_valid (indexManager t'))"
proof -
  from assms obtain im index where
    f: "freeIndex (indexManager t) (identifier v) = Inr (im, index)"
    and t': "t' = t\<lparr>indexManager := im\<rparr>" and v': "v' = v\<lparr>identifier := index\<rparr>"
    by (auto simp: destroyIdentifier_def split: sum.splits prod.splits)
  from freeIndex_zero [OF f] freeIndex_valid [OF f] t' v' show ?thesis
    by (simp add: getPosition_def)
qed

lemma nonZerosRow_assign_result:
  assumes "nonZerosRow_assign J k c = Inr J'"
  shows "jac_values J' = jac_values J \<and> jac_n J' = jac_n J
    \<and> length (nonZerosRowVector J') = length (nonZerosRowVector J)
    \<and> (\<forall>i. i \<noteq> k \<longrightarrow> nonZerosRowVector J' ! i = nonZerosRowVector J ! i)"
  using assms
  by (auto simp: nonZerosRow_assign_def vectorSet_def split: sum.splits if_splits)

lemma storeRow_cases:
  assumes "doPreaccumulation_storeRow inputs outValues k (J1, t1, m1) = Inr (J2, t2, m2)"
  shows "k < length outValues \<and> k < length (nonZerosRowVector J1)
    \<and> (if nonZerosRowVector J1 ! k = 0
        then \<exists>v'. destroyIdentifier (m1 (outValues ! k)) t1 = Inr (t2, v')
               \<and> J2 = J1 \<and> m2 = m1(outValues ! k := v')
        else \<exists>lastId. nonZerosRow_assign J1 k 0 = Inr J2
               \<and> doPreaccumulation_pushStatements J2 inputs k (primalValue (m1 (outValues ! k)))
                    (nonZerosRowVector J1 ! k) False 0 (identifier (m1 (outValues ! k))) t1
                  = Inr (t2, lastId)
               \<and> m2 = m1(outValues ! k := (m1 (outValues ! k))\<lparr>identifier := lastId\<rparr>))"
proof -
  from assms have kv: "k < length outValues"
    by (simp add: doPreaccumulation_storeRow_def vectorGet_def split: if_splits)
  then have p: "vectorGet outValues (int k) = Inr (outValues ! k)"
    by (simp add: vectorGet_def)
  from assms p have kn: "k < length (nonZerosRowVector J1)"
    by (simp add: doPreaccumulation_storeRow_def nonZerosRow_def vectorGet_def split: if_splits)
  then have nz: "nonZerosRow J1 k = Inr (nonZerosRowVector J1 ! k)"
    by (simp add: nonZerosRow_def vectorGet_def)
  show ?thesis
  proof (cases "nonZerosRowVector J1 ! k = 0")
    case True
    with assms p nz kv kn show ?thesis
      by (simp add: doPreaccumulation_storeRow_def split: sum.splits prod.splits)
  next
    case False
    with assms p nz kv kn show ?thesis
      by (simp add: doPreaccumulation_storeRow_def split: sum.splits prod.splits)
  qed
qed

lemma storeRow_result:
  assumes "doPreaccumulation_storeRow inputs outValues k (J1, t1, m1) = Inr (J2, t2, m2)"
  shows "k < length outValues
    \<and> jac_values J2 = jac_values J1 \<and> jac_n J2 = jac_n J1
    \<and> (\<forall>i. i \<noteq> k \<longrightarrow> nonZerosRowVector J2 ! i = nonZerosRowVector J1 ! i)
    \<and> (\<forall>q. q \<noteq> outValues ! k \<longrightarrow> m2 q = m1 q)
    \<and> (IndexManager_valid (indexManager t1) \<longrightarrow> IndexManager_valid (indexManager t2))
    \<and> (if nonZerosRowVector J1 ! k = 0
        then destroyIdentifier (m1 (outValues ! k)) t1 = Inr (t2, m2 (outValues ! k))
           \<and> identifier (m2 (outValues ! k)) = 0
           \<and> getPosition t2 = getPosition t1
        else 0 < nonZerosRowVector J1 ! k \<longrightarrow>
             length (statementData t1) < length (statementData t2)
           \<and> lhsIdentifier (last (statementData t2)) = identifier (m2 (outValues ! k))
           \<and> (IndexManager_valid (indexManager t1) \<longrightarrow> identifier (m2 (outValues ! k)) \<noteq> 0))"
proof (cases "nonZerosRowVector J1 ! k = 0")
  case True
  with storeRow_cases [OF assms] obtain v' where
    kv: "k < length outValues"
    and d: "destroyIdentifier (m1 (outValues ! k)) t1 = Inr (t2, v')"
    and e: "J2 = J1" "m2 = m1(outValues ! k := v')"
    by auto
  from destroyIdentifier_result [OF d] True kv d e show ?thesis
    by simp
next
  case False
  with storeRow_cases [OF assms] obtain lastId where
    kv: "k < length outValues"
    and a: "nonZerosRow_assign J1 k 0 = Inr J2"
    and ps: "doPreaccumulation_pushStatements J2 inputs k (primalValue (m1 (outValues ! k)))
               (nonZerosRowVector J1 ! k) False 0 (identifier (m1 (outValues ! k))) t1
             = Inr (t2, lastId)"
    and e: "m2 = m1(outValues ! k := (m1 (outValues ! k))\<lparr>identifier := lastId\<rparr>)"
    by auto
  from nonZerosRow_assign_result [OF a] pushStatements_result [OF ps] False kv e
  show ?thesis
    by simp
qed

lemma storeJacobian_invariant:
  "doPreaccumulation_storeJacobian inputs outs outValues c s = Inr sF \<Longrightarrow>
     jac_values (fst sF) = jac_values (fst s) \<and> jac_n (fst sF) = jac_n (fst s)
   \<and> (\<forall>i. (i < c \<or> length outs \<le> i) \<longrightarrow>
         nonZerosRowVector (fst sF) ! i = nonZerosRowVector (fst s) ! i)
   \<and> (IndexManager_valid (indexManager (fst (snd s)))
         \<longrightarrow> IndexManager_valid (indexManager (fst (snd sF))))
   \<and> (\<forall>q. (\<forall>j. c \<le> j \<and> j < length outs \<longrightarrow> outValues ! j \<noteq> q)
         \<longrightarrow> snd (snd sF) q = snd (snd s) q)"
proof (induction inputs outs outValues c s rule: doPreaccumulation_storeJacobian.induct)
  case (1 inputs outs outValues c s)
  show ?case
  proof (cases "c < length outs")
    case False
    with "1.prems" show ?thesis
      by (subst (asm) doPreaccumulation_storeJacobian.simps) simp
  next
    case True
    with "1.prems" obtain s' where
      row: "doPreaccumulation_storeRow inputs outValues c s = Inr s'"
      and rest: "doPreaccumulation_storeJacobian inputs outs outValues (c + 1) s' = Inr sF"
      by (subst (asm) doPreaccumulation_storeJacobian.simps) (auto split: sum.splits)
    obtain J1 t1 m1 where s: "s = (J1, t1, m1)" by (cases s)
    obtain J2 t2 m2 where s': "s' = (J2, t2, m2)" by (cases s')
    note r = storeRow_result [OF row [unfolded s s']]
    note ih = "1.IH" [OF True row rest]
    have "\<forall>i. (i < c \<or> length outs \<le> i) \<longrightarrow>
         nonZerosRowVector (fst sF) ! i = nonZerosRowVector (fst s) ! i"
      using ih r True by (auto simp: s s')
    moreover have "\<forall>q. (\<forall>j. c \<le> j \<and> j < length outs \<longrightarrow> outValues ! j \<noteq> q)
         \<longrightarrow> snd (snd sF) q = snd (snd s) q"
    proof (intro allI impI)
      fix q assume q: "\<forall>j. c \<le> j \<and> j < length outs \<longrightarrow> outValues ! j \<noteq> q"
      then have "outValues ! c \<noteq> q" using True by auto
      then have "m2 q = m1 q" using r by auto
      moreover have "snd (snd sF) q = m2 q" using ih q by (auto simp: s')
      ultimately show "snd (snd sF) q = snd (snd s) q" by (simp add: s)
    qed
    ultimately show ?thesis
      using ih r by (auto simp: s s')
  qed
qed

lemma storeJacobian_split:
  "doPreaccumulation_storeJacobian inputs outputs outValues c s = Inr sF \<Longrightarrow>
   c \<le> k \<Longrightarrow> k \<le> length outputs \<Longrightarrow>
   \<exists>sk. doPreaccumulation_storeJacobian inputs (take k outputs) outValues c s = Inr sk
      \<and> doPreaccumulation_storeJacobian inputs outputs outValues k sk = Inr sF"
proof (induction "k - c" arbitrary: c s)
  case 0
  then have "c = k" by simp
  with 0 show ?case
    by (subst doPreaccumulation_storeJacobian.simps) simp
next
  case (Suc d)
  then have lt: "c < k" "c < length outputs" by auto
  with Suc.prems obtain s' where
    row: "doPreaccumulation_storeRow inputs outValues c s = Inr s'"
    and rest: "doPreaccumulation_storeJacobian inputs outputs outValues (c + 1) s' = Inr sF"
    by (subst (asm) doPreaccumulation_storeJacobian.simps) (auto split: sum.splits)
  have "d = k - (c + 1)" using Suc.hyps(2) by simp
  from Suc.hyps(1) [OF this rest] lt Suc.prems obtain sk where
    sk: "doPreaccumulation_storeJacobian inputs (take k outputs) outValues (c + 1) s' = Inr sk"
      "doPreaccumulation_storeJacobian inputs outputs outValues k sk = Inr sF"
    by auto
  have "doPreaccumulation_storeJacobian inputs (take k outputs) outValues c s = Inr sk"
    using lt Suc.prems row sk(1)
    by (subst doPreaccumulation_storeJacobian.simps) simp
  with sk(2) show ?case by blast
qed

lemma storeJacobian_one:
  assumes "k < length outputs"
  shows "doPreaccumulation_storeJacobian inputs (take (Suc k) outputs) outValues k s
     = doPreaccumulation_storeRow inputs outValues k s"
proof -
  have stop: "doPreaccumulation_storeJacobian inputs (take (Suc k) outputs) outValues (Suc k) s'
      = Inr s'" for s'
    by (subst doPreaccumulation_storeJacobian.simps) simp
  show ?thesis
    using assms
    by (subst doPreaccumulation_storeJacobian.simps) (simp add: stop split: sum.splits)
qed

lemma storeJacobian_lengths:
  "doPreaccumulation_storeJacobian inputs outs outValues c s = Inr sF \<Longrightarrow>
     c < length outs \<Longrightarrow> length outs \<le> length outValues"
proof (induction inputs outs outValues c s rule: doPreaccumulation_storeJacobian.induct)
  case (1 inputs outs outValues c s)
  from "1.prems" obtain s' where
    row: "doPreaccumulation_storeRow inputs outValues c s = Inr s'"
    and rest: "doPreaccumulation_storeJacobian inputs outs outValues (c + 1) s' = Inr sF"
    by (subst (asm) doPreaccumulation_storeJacobian.simps) (auto split: sum.splits)
  from row have c: "c < length outValues"
    by (cases s) (simp add: doPreaccumulation_storeRow_def vectorGet_def split: if_splits)
  show ?case
  proof (cases "c + 1 < length outs")
    case True
    from "1.IH" [OF "1.prems"(2) row rest True] show ?thesis .
  next
    case False
    with "1.prems"(2) c show ?thesis by simp
  qed
qed

lemma storeJacobian_outputs:
  assumes run: "doPreaccumulation_storeJacobian inputs outputs outValues 0 (J, t, mem)
        = Inr (J', t', mem')"
    and dist: "distinct outValues"
    and cnt: "\<forall>k < length outputs.
        (nonZerosRowVector J ! k = 0) = (\<forall>j < jac_n J. jacobianGet J k j = Inr 0)"
    and pos: "\<forall>k < length outputs. 0 \<le> nonZerosRowVector J ! k"
    and val: "IndexManager_valid (indexManager t)"
    and k: "k < length outputs"
  shows "\<exists>J1 t1 m1 J2 t2 m2.
      doPreaccumulation_storeJacobian inputs (take k outputs) outValues 0 (J, t, mem)
        = Inr (J1, t1, m1)
    \<and> doPreaccumulation_storeRow inputs outValues k (J1, t1, m1) = Inr (J2, t2, m2)
    \<and> (if \<forall>j < jac_n J. jacobianGet J k j = Inr 0
       then destroyIdentifier (m1 (outValues ! k)) t1 = Inr (t2, mem' (outValues ! k))
          \<and> identifier (mem' (outValues ! k)) = 0
          \<and> getPosition t2 = getPosition t1
       else length (statementData t1) < length (statementData t2)
          \<and> lhsIdentifier (last (statementData t2)) = identifier (mem' (outValues ! k))
          \<and> identifier (mem' (outValues ! k)) \<noteq> 0)"
proof -
  from storeJacobian_split [OF run, of "Suc k"] k obtain s2 where
    pre2: "doPreaccumulation_storeJacobian inputs (take (Suc k) outputs) outValues 0 (J, t, mem)
        = Inr s2"
    and post2: "doPreaccumulation_storeJacobian inputs outputs outValues (Suc k) s2
        = Inr (J', t', mem')"
    by auto
  have lk: "k < length (take (Suc k) outputs)" using k by simp
  from storeJacobian_split [OF pre2, of k] lk obtain s1 where
    pre1: "doPreaccumulation_storeJacobian inputs (take k (take (Suc k) outputs)) outValues 0
        (J, t, mem) = Inr s1"
    and one: "doPreaccumulation_storeJacobian inputs (take (Suc k) outputs) outValues k s1 = Inr s2"
    by auto
  have tk: "take k (take (Suc k) outputs) = take k outputs" by simp
  obtain J1 t1 m1 where s1: "s1 = (J1, t1, m1)" by (cases s1)
  obtain J2 t2 m2 where s2: "s2 = (J2, t2, m2)" by (cases s2)
  from one have row: "doPreaccumulation_storeRow inputs outValues k (J1, t1, m1) = Inr (J2, t2, m2)"
    by (simp add: storeJacobian_one [OF k] s1 s2)
  note r = storeRow_result [OF row]
  note i1 = storeJacobian_invariant [OF pre1 [unfolded tk s1]]
  note i2 = storeJacobian_invariant [OF post2 [unfolded s2]]
  have c1: "nonZerosRowVector J1 ! k = nonZerosRowVector J ! k"
    using i1 k by simp
  have v1: "IndexManager_valid (indexManager t1)"
    using i1 val by simp
  have "\<forall>j. Suc k \<le> j \<and> j < length outputs \<longrightarrow> outValues ! j \<noteq> outValues ! k"
  proof (intro allI impI)
    fix j assume j: "Suc k \<le> j \<and> j < length outputs"
    from k have "0 < length outputs" by (cases outputs) simp_all
    from storeJacobian_lengths [OF run this]
    have "length outputs \<le> length outValues" .
    with j dist k show "outValues ! j \<noteq> outValues ! k"
      by (auto simp: nth_eq_iff_index_eq)
  qed
  then have fin: "mem' (outValues ! k) = m2 (outValues ! k)"
    using i2 by simp
  have "(nonZerosRowVector J ! k = 0) = (\<forall>j < jac_n J. jacobianGet J k j = Inr 0)"
    using cnt k by simp
  moreover have "0 \<le> nonZerosRowVector J ! k" using pos k by simp
  ultimately have "if \<forall>j < jac_n J. jacobianGet J k j = Inr 0
       then destroyIdentifier (m1 (outValues ! k)) t1 = Inr (t2, mem' (outValues ! k))
          \<and> identifier (mem' (outValues ! k)) = 0
          \<and> getPosition t2 = getPosition t1
       else length (statementData t1) < length (statementData t2)
          \<and> lhsIdentifier (last (statementData t2)) = identifier (mem' (outValues ! k))
          \<and> identifier (mem' (outValues ! k)) \<noteq> 0"
    using r c1 v1 fin by (auto split: if_splits)
  with pre1 [unfolded tk s1] row show ?thesis by blast
qed

text \<open>
  Let the loop that stores the Jacobian complete, on a valid index manager, with
  output variables that are distinct objects and a counter for every row that is the
  number of nonzero entries of the row. Then for every output \<open>k\<close>: if its row holds
  only zeros, the body of the loop is \<open>destroyIdentifier\<close> on the variable, the
  position of the tape does not move (no statement and no pair is pushed) and the
  variable ends with the passive identifier 0; if its row holds a nonzero entry, the body
  pushes at least one statement, and the variable ends with the identifier of the last
  statement pushed for it, which is not 0.
\<close>

theorem preaccumulation_outputs_passive_or_stored:
  assumes "doPreaccumulation_storeJacobian inputs outputs outValues 0 (J, t, mem)
        = Inr (J', t', mem')"
    and "distinct outValues"
    and "\<forall>k < length outputs. nonZerosRowVector J ! k
           = int (length (filter (\<lambda>j. jacobianGet J k j \<noteq> Inr 0) [0..<jac_n J]))"
    and "IndexManager_valid (indexManager t)"
    and "k < length outputs"
  shows "\<exists>J1 t1 m1 J2 t2 m2.
      doPreaccumulation_storeJacobian inputs (take k outputs) outValues 0 (J, t, mem)
        = Inr (J1, t1, m1)
    \<and> doPreaccumulation_storeRow inputs outValues k (J1, t1, m1) = Inr (J2, t2, m2)
    \<and> (if \<forall>j < jac_n J. jacobianGet J k j = Inr 0
       then destroyIdentifier (m1 (outValues ! k)) t1 = Inr (t2, mem' (outValues ! k))
          \<and> identifier (mem' (outValues ! k)) = 0
          \<and> getPosition t2 = getPosition t1
       else length (statementData t1) < length (statementData t2)
          \<and> lhsIdentifier (last (statementData t2)) = identifier (mem' (outValues ! k))
          \<and> identifier (mem' (outValues ! k)) \<noteq> 0)"
proof (rule storeJacobian_outputs [OF assms(1,2) _ _ assms(4,5)])
  show "\<forall>k < length outputs.
      (nonZerosRowVector J ! k = 0) = (\<forall>j < jac_n J. jacobianGet J k j = Inr 0)"
    using assms(3) by (auto simp: filter_empty_conv)
  show "\<forall>k < length outputs. 0 \<le> nonZerosRowVector J ! k"
    using assms(3) by simp
qed

theorem preaccumulation_outputs_passive_or_stored_witness:
  "\<exists>J' t' mem'.
     doPreaccumulation_storeJacobian [256, 257] [258, 259] [0, 1] 0
       (\<lparr>jac_values = [2, 0, 0, 0], jac_m = 2, jac_n = 2, nonZerosRowVector = [1, 0]\<rparr>,
        \<lparr>indexManager = \<lparr>policy = Reuse, largestAssignedIndex = 259, freeIndices = []\<rparr>,
         statementData = [], rhsIdentiferData = [], passiveValueData = [],
         constantValueData = [], adjoints = [0], primals = replicate 260 0, primalsCopy = [],
         active = True\<rparr>,
        \<lambda>p. \<lparr>primalValue = 7, identifier = 258 + int p\<rparr>) = Inr (J', t', mem')
   \<and> identifier (mem' 1) = 0 \<and> identifier (mem' 0) \<noteq> 0"
proof -
  let ?J = "\<lparr>jac_values = [2, 0, 0, 0], jac_m = 2, jac_n = 2, nonZerosRowVector = [1, 0]\<rparr>"
  let ?t = "\<lparr>indexManager = \<lparr>policy = Reuse, largestAssignedIndex = 259, freeIndices = []\<rparr>,
         statementData = [], rhsIdentiferData = [], passiveValueData = [],
         constantValueData = [], adjoints = [0], primals = replicate 260 0, primalsCopy = [],
         active = True\<rparr>"
  let ?mem = "\<lambda>p::nat. \<lparr>primalValue = 7, identifier = 258 + int p\<rparr>"
  have "\<exists>J' t' mem'. doPreaccumulation_storeJacobian [256, 257] [258, 259] [0, 1] 0 (?J, ?t, ?mem)
      = Inr (J', t', mem')"
    by (simp add: doPreaccumulation_storeJacobian.simps doPreaccumulation_storeRow_def
        doPreaccumulation_pushStatements.simps doPreaccumulation_pushJacobies.simps
        vectorGet_def vectorSet_def nonZerosRow_def nonZerosRow_assign_def storeManual_def
        assignIndex_def jacobianExpressions_def MaxArgumentSize_def pushStmtData_def pushData_def
        reserveItems_def jacobianGet_def computeIndex_def pushJacobiManual_def
        destroyIdentifier_def freeIndex_def Let_def)
  then obtain J' t' mem' where
    run: "doPreaccumulation_storeJacobian [256, 257] [258, 259] [0, 1] 0 (?J, ?t, ?mem)
      = Inr (J', t', mem')"
    by blast
  have cnt: "\<forall>k < length [258, 259 :: int]. nonZerosRowVector ?J ! k
           = int (length (filter (\<lambda>j. jacobianGet ?J k j \<noteq> Inr 0) [0..<jac_n ?J]))"
    by (simp add: less_Suc_eq numeral_2_eq_2 jacobianGet_def computeIndex_def vectorGet_def
        all_conj_distrib)
  have val: "IndexManager_valid (indexManager ?t)"
    by (simp add: IndexManager_valid_def)
  have z: "\<forall>j < jac_n ?J. jacobianGet ?J 1 j = Inr 0"
    by (simp add: less_Suc_eq numeral_2_eq_2 jacobianGet_def computeIndex_def vectorGet_def)
  have nz: "\<not> (\<forall>j < jac_n ?J. jacobianGet ?J 0 j = Inr 0)"
    by (auto simp: jacobianGet_def computeIndex_def vectorGet_def intro!: exI [of _ 0])
  have "identifier (mem' 1) = 0"
  proof -
    from preaccumulation_outputs_passive_or_stored [OF run _ cnt val, of 1]
    obtain m1 :: Memory and t1 t2 where
      "if \<forall>j < jac_n ?J. jacobianGet ?J 1 j = Inr 0
       then destroyIdentifier (m1 ([0, 1] ! 1)) t1 = Inr (t2, mem' ([0, 1] ! 1))
          \<and> identifier (mem' ([0, 1] ! 1)) = 0
          \<and> getPosition t2 = getPosition t1
       else length (statementData t1) < length (statementData t2)
          \<and> lhsIdentifier (last (statementData t2)) = identifier (mem' ([0, 1] ! 1))
          \<and> identifier (mem' ([0, 1] ! 1)) \<noteq> 0"
      by auto
    then have "identifier (mem' ([0, 1] ! 1)) = 0"
      using z by (simp only: if_P simp_thms)
    then show ?thesis by simp
  qed
  moreover have "identifier (mem' 0) \<noteq> 0"
  proof -
    from preaccumulation_outputs_passive_or_stored [OF run _ cnt val, of 0]
    obtain m1 :: Memory and t1 t2 where
      "if \<forall>j < jac_n ?J. jacobianGet ?J 0 j = Inr 0
       then destroyIdentifier (m1 ([0, 1] ! 0)) t1 = Inr (t2, mem' ([0, 1] ! 0))
          \<and> identifier (mem' ([0, 1] ! 0)) = 0
          \<and> getPosition t2 = getPosition t1
       else length (statementData t1) < length (statementData t2)
          \<and> lhsIdentifier (last (statementData t2)) = identifier (mem' ([0, 1] ! 0))
          \<and> identifier (mem' ([0, 1] ! 0)) \<noteq> 0"
      by auto
    then have "identifier (mem' ([0, 1] ! 0)) \<noteq> 0"
      using nz by (simp only: if_not_P if_False simp_thms)
    then show ?thesis by simp
  qed
  ultimately show ?thesis using run by blast
qed


section \<open>Preaccumulation: the adjoints of the inputs\<close>

lemma addOutputRecursive_inputData [simp]:
  "inputData (addOutputRecursive mem outputs h) = inputData h"
  by (induction outputs arbitrary: h) (simp_all add: addOutputLogic_def)

lemma gradientAssign_result:
  assumes "gradientAssign index g t = Inr t'"
  shows "0 \<le> index \<and> index < int (length (adjoints t')) \<and> adjoints t' ! nat index = g"
  using assms
  by (auto simp: gradientAssign_def gradient_def vectorSet_def vectorGet_def Let_def
      split: sum.splits if_splits)

lemma gradientRead_result:
  assumes "gradientRead index t = Inr (g, t')"
  shows "0 \<le> index \<and> index < int (length (adjoints t')) \<and> adjoints t' ! nat index = g"
  using assms
  by (auto simp: gradientRead_def gradient_def vectorGet_def Let_def
      split: sum.splits if_splits)

lemma gradientRead_inside:
  assumes "0 \<le> index" "index < int (length (adjoints t))"
  shows "gradientRead index t = Inr (adjoints t ! nat index, t)"
  using assms
  by (simp add: gradientRead_def gradient_def vectorGet_def checkAdjointSize_def Let_def)

lemma storeInputAdjoints_twice:
  assumes "storeInputAdjoints_loop [i, i] 0 (stored, t) = Inr (stored', t')"
  shows "stored' ! 1 = 0 \<and> 1 < length stored'"
proof -
  from assms obtain g t1 s1 a1 where
    r1: "gradientRead i t = Inr (g, t1)"
    and s1: "vectorSet stored 0 g = Inr s1"
    and a1: "vectorSet (adjoints t1) i 0 = Inr a1"
    and rest: "storeInputAdjoints_loop [i, i] 1 (s1, t1\<lparr>adjoints := a1\<rparr>) = Inr (stored', t')"
    by (subst (asm) storeInputAdjoints_loop.simps) (auto split: sum.splits)
  from gradientRead_result [OF r1] a1 have in1: "0 \<le> i" "i < int (length a1)" "a1 ! nat i = 0"
    by (auto simp: vectorSet_def split: if_splits)
  then have r2: "gradientRead i (t1\<lparr>adjoints := a1\<rparr>) = Inr (0, t1\<lparr>adjoints := a1\<rparr>)"
    using gradientRead_inside [of i "t1\<lparr>adjoints := a1\<rparr>"] by simp
  from rest r2 obtain s2 a2 where
    s2: "vectorSet s1 1 0 = Inr s2"
    and fin: "storeInputAdjoints_loop [i, i] 2 (s2, t1\<lparr>adjoints := a2\<rparr>) = Inr (stored', t')"
    by (subst (asm) storeInputAdjoints_loop.simps) (auto split: sum.splits)
  from fin have "stored' = s2"
    by (subst (asm) storeInputAdjoints_loop.simps) simp
  with s2 show ?thesis
    by (auto simp: vectorSet_def split: if_splits)
qed

lemma restoreInputAdjoints_twice:
  assumes "restoreInputAdjoints_loop [i, i] stored 0 t = Inr t'" and "1 < length stored"
  shows "0 \<le> i \<and> i < int (length (adjoints t')) \<and> adjoints t' ! nat i = stored ! 1"
proof -
  from assms obtain t1 where
    rest: "restoreInputAdjoints_loop [i, i] stored 1 t1 = Inr t'"
    by (subst (asm) restoreInputAdjoints_loop.simps) (auto split: sum.splits)
  from rest assms(2) obtain t2 where
    g2: "gradientAssign i (stored ! 1) t1 = Inr t2"
    and fin: "restoreInputAdjoints_loop [i, i] stored 2 t2 = Inr t'"
    by (subst (asm) restoreInputAdjoints_loop.simps)
      (auto simp: vectorGet_def split: sum.splits if_splits)
  from fin have "t' = t2"
    by (subst (asm) restoreInputAdjoints_loop.simps) simp
  with gradientAssign_result [OF g2] show ?thesis by simp
qed

lemma doPreaccumulation_helper:
  assumes "doPreaccumulation env h t mem = Inr (h', t', mem')"
  shows "inputData h' = inputData h \<and> storedAdjoints h' = storedAdjoints h"
  using assms by (auto simp: doPreaccumulation_def Let_def split: sum.splits prod.splits)

text \<open>
  When the declared input identifiers are pairwise distinct, \<open>finish\<close> with
  \<open>storeAdjoints = true\<close> gives every input its adjoint back: round \<open>k\<close> of
  \<open>storeInputAdjoints\<close> saves the adjoint of input \<open>k\<close> as it was before
  \<open>finish\<close>, since the earlier rounds have zeroed other entries only, and
  \<open>restoreInputAdjoints\<close> writes it back, the later rounds writing other entries only.
\<close>

lemma gradient_frame:
  assumes "gradient index t = Inr t'"
  shows "0 \<le> index" and "index < int (length (adjoints t'))"
    and "length (adjoints t) \<le> length (adjoints t')"
    and "k < length (adjoints t) \<Longrightarrow> adjoints t' ! k = adjoints t ! k"
proof -
  have "0 \<le> index \<and> index < int (length (adjoints t'))
    \<and> length (adjoints t) \<le> length (adjoints t')
    \<and> (\<forall>k < length (adjoints t). adjoints t' ! k = adjoints t ! k)"
  proof (cases "index \<ge> int (length (adjoints t))")
    case False
    with assms have "t' = t" "0 \<le> index"
      by (simp_all add: gradient_def checkAdjointSize_def vectorGet_def Let_def split: if_splits)
    with False show ?thesis by simp
  next
    case True
    let ?n = "nat (getLargestAssignedIndex (indexManager t) + 1)"
    from assms True have t': "t' = t\<lparr>adjoints := vectorResize ?n (adjoints t)\<rparr>"
      and idx: "0 \<le> index" "index < int (length (vectorResize ?n (adjoints t)))"
      by (simp_all add: gradient_def checkAdjointSize_def resizeAdjointsVector_def vectorGet_def
          Let_def split: if_splits)
    have len: "length (vectorResize ?n (adjoints t)) = ?n"
      by (simp add: vectorResize_def)
    with idx True have big: "length (adjoints t) \<le> ?n" by linarith
    then have "vectorResize ?n (adjoints t) = adjoints t @ replicate (?n - length (adjoints t)) 0"
      by (simp add: vectorResize_def)
    with t' idx show ?thesis
      by (simp add: nth_append)
  qed
  then show "0 \<le> index" and "index < int (length (adjoints t'))"
    and "length (adjoints t) \<le> length (adjoints t')"
    and "k < length (adjoints t) \<Longrightarrow> adjoints t' ! k = adjoints t ! k"
    by simp_all
qed

lemma gradientAssign_frame:
  assumes "gradientAssign index g t = Inr t'"
  shows "0 \<le> index" and "index < int (length (adjoints t'))"
    and "adjoints t' ! nat index = g"
    and "length (adjoints t) \<le> length (adjoints t')"
    and "k < length (adjoints t) \<Longrightarrow> k \<noteq> nat index \<Longrightarrow> adjoints t' ! k = adjoints t ! k"
proof -
  from assms obtain t1 a where g: "gradient index t = Inr t1"
    and a: "vectorSet (adjoints t1) index g = Inr a" and t': "t' = t1\<lparr>adjoints := a\<rparr>"
    by (auto simp: gradientAssign_def split: sum.splits)
  from a have a1: "a = (adjoints t1)[nat index := g]"
    by (simp add: vectorSet_def split: if_splits)
  note gf = gradient_frame [OF g]
  show "0 \<le> index" by (rule gf(1))
  show "index < int (length (adjoints t'))" using gf(2) by (simp add: t' a1)
  from gf(1,2) have "nat index < length (adjoints t1)" by linarith
  then show "adjoints t' ! nat index = g" by (simp add: t' a1)
  show "length (adjoints t) \<le> length (adjoints t')" using gf(3) by (simp add: t' a1)
  show "adjoints t' ! k = adjoints t ! k" if "k < length (adjoints t)" "k \<noteq> nat index"
    using that gf(4) [OF that(1)] by (simp add: t' a1)
qed


lemma storeInputAdjoints_loop_result:
  "storeInputAdjoints_loop inputs c s = Inr s' \<Longrightarrow> distinct inputs \<Longrightarrow>
     length (fst s') = length (fst s)
   \<and> (\<forall>j < c. fst s' ! j = fst s ! j)
   \<and> (\<forall>k. c \<le> k \<longrightarrow> k < length inputs \<longrightarrow> inputs ! k < int (length (adjoints (snd s)))
         \<longrightarrow> 0 \<le> inputs ! k \<and> k < length (fst s')
             \<and> fst s' ! k = adjoints (snd s) ! nat (inputs ! k))"
proof (induction inputs c s rule: storeInputAdjoints_loop.induct)
  case (1 inputs c s)
  obtain stored t where s: "s = (stored, t)" by (cases s)
  show ?case
  proof (cases "c < length inputs")
    case False
    with "1.prems"(1) have "s' = s"
      by (subst (asm) storeInputAdjoints_loop.simps) simp
    then show ?thesis using False by simp
  next
    case True
    let ?i = "inputs ! c"
    from "1.prems"(1) True s obtain g t1 stored1 a where
      r: "gradientRead ?i t = Inr (g, t1)"
      and st: "vectorSet stored (int c) g = Inr stored1"
      and a: "vectorSet (adjoints t1) ?i 0 = Inr a"
      and rest: "storeInputAdjoints_loop inputs (c + 1) (stored1, t1\<lparr>adjoints := a\<rparr>) = Inr s'"
      by (subst (asm) storeInputAdjoints_loop.simps)
        (auto simp del: storeInputAdjoints_loop.simps split: sum.splits)
    from r have gr: "gradient ?i t = Inr t1" and g: "g = adjoints t1 ! nat ?i"
      by (auto simp: gradientRead_def vectorGet_def split: sum.splits if_splits)
    note gf = gradient_frame [OF gr]
    from st have st1: "stored1 = stored[c := g]" and st2: "c < length stored"
      by (auto simp: vectorSet_def split: if_splits)
    from a have a1: "a = (adjoints t1)[nat ?i := 0]"
      by (auto simp: vectorSet_def split: if_splits)
    note ih = "1.IH" [OF s [symmetric] True r refl st a rest "1.prems"(2), unfolded fst_conv snd_conv]
    note ih_len = ih [THEN conjunct1]
    note ih_pre = ih [THEN conjunct2, THEN conjunct1, rule_format]
    note ih_k = ih [THEN conjunct2, THEN conjunct2, rule_format]
    have len: "length (fst s') = length stored"
      using ih_len by (simp add: st1)
    have pre: "fst s' ! j = stored ! j" if "j < c" for j
    proof -
      from that have "j < c + 1" by simp
      from ih_pre [OF this] that show ?thesis by (simp add: st1)
    qed
    have at_c: "fst s' ! c = g"
    proof -
      have "c < c + 1" by simp
      from ih_pre [OF this] st2 show ?thesis by (simp add: st1)
    qed
    have main: "0 \<le> inputs ! k \<and> k < length (fst s') \<and> fst s' ! k = adjoints t ! nat (inputs ! k)"
      if k: "c \<le> k" "k < length inputs" "inputs ! k < int (length (adjoints t))" for k
    proof (cases "k = c")
      case True
      from k(3) True have "?i < int (length (adjoints t))" by simp
      with gf(1) have "nat ?i < length (adjoints t)" by linarith
      from gf(4) [OF this] g have "g = adjoints t ! nat ?i" by simp
      with at_c gf(1) st2 len True show ?thesis by simp
    next
      case False
      with k have kc: "c + 1 \<le> k" by simp
      from False k(2) True "1.prems"(2) have ne: "inputs ! k \<noteq> ?i"
        by (simp add: nth_eq_iff_index_eq)
      have inr: "inputs ! k < int (length (adjoints (t1\<lparr>adjoints := a\<rparr>)))"
        using k(3) gf(3) by (simp add: a1)
      note r1 = ih_k [OF kc k(2) inr]
      from r1 have nn: "0 \<le> inputs ! k" by simp
      with k(3) have kin: "nat (inputs ! k) < length (adjoints t)" by linarith
      from nn gf(1) ne have "nat (inputs ! k) \<noteq> nat ?i" by (simp add: nat_eq_iff)
      then have "a ! nat (inputs ! k) = adjoints t1 ! nat (inputs ! k)"
        by (simp add: a1)
      also have "\<dots> = adjoints t ! nat (inputs ! k)"
        by (rule gf(4) [OF kin])
      finally show ?thesis using r1 by simp
    qed
    show ?thesis
    proof (intro conjI allI impI)
      show "length (fst s') = length (fst s)" using len by (simp add: s)
    next
      fix j assume "j < c"
      from pre [OF this] show "fst s' ! j = fst s ! j" by (simp add: s)
    next
      fix k assume k: "c \<le> k" "k < length inputs" "inputs ! k < int (length (adjoints (snd s)))"
      from k(3) have "inputs ! k < int (length (adjoints t))" by (simp add: s)
      note m = main [OF k(1,2) this]
      from m show "0 \<le> inputs ! k" by simp
      from m show "k < length (fst s')" by simp
      from m show "fst s' ! k = adjoints (snd s) ! nat (inputs ! k)" by (simp add: s)
    qed
  qed
qed


lemma restoreInputAdjoints_loop_result:
  "restoreInputAdjoints_loop inputs stored c t = Inr t' \<Longrightarrow> distinct inputs \<Longrightarrow>
     length (adjoints t) \<le> length (adjoints t')
   \<and> (\<forall>k. c \<le> k \<longrightarrow> k < length inputs
         \<longrightarrow> 0 \<le> inputs ! k \<and> inputs ! k < int (length (adjoints t'))
             \<and> adjoints t' ! nat (inputs ! k) = stored ! k)
   \<and> (\<forall>q. q < length (adjoints t) \<longrightarrow>
         (\<forall>k. c \<le> k \<longrightarrow> k < length inputs \<longrightarrow> inputs ! k \<noteq> int q)
         \<longrightarrow> adjoints t' ! q = adjoints t ! q)"
proof (induction inputs stored c t rule: restoreInputAdjoints_loop.induct)
  case (1 inputs stored c t)
  show ?case
  proof (cases "c < length inputs")
    case False
    with "1.prems"(1) have "t' = t"
      by (subst (asm) restoreInputAdjoints_loop.simps) simp
    then show ?thesis using False by simp
  next
    case True
    let ?i = "inputs ! c"
    from "1.prems"(1) True obtain g t1 where
      sg: "vectorGet stored (int c) = Inr g"
      and ga: "gradientAssign ?i g t = Inr t1"
      and rest: "restoreInputAdjoints_loop inputs stored (c + 1) t1 = Inr t'"
      by (subst (asm) restoreInputAdjoints_loop.simps)
        (auto simp del: restoreInputAdjoints_loop.simps split: sum.splits)
    from sg have g: "g = stored ! c"
      by (auto simp: vectorGet_def split: if_splits)
    note gf = gradientAssign_frame [OF ga]
    note ih = "1.IH" [OF True sg ga rest "1.prems"(2)]
    note ih_len = ih [THEN conjunct1]
    note ih_k = ih [THEN conjunct2, THEN conjunct1, rule_format]
    note ih_q = ih [THEN conjunct2, THEN conjunct2, rule_format]
    from gf(1,2) have iin: "nat ?i < length (adjoints t1)" by linarith
    have later: "inputs ! k \<noteq> ?i" if "c + 1 \<le> k" "k < length inputs" for k
      using that True "1.prems"(2) by (simp add: nth_eq_iff_index_eq)
    have keep: "adjoints t' ! nat ?i = stored ! c"
    proof -
      have "inputs ! k \<noteq> int (nat ?i)" if "c + 1 \<le> k" "k < length inputs" for k
        using later [OF that] gf(1) by simp
      from ih_q [OF iin this] gf(3) g show ?thesis by simp
    qed
    have len: "length (adjoints t) \<le> length (adjoints t')"
      using gf(4) ih_len by simp
    have main: "0 \<le> inputs ! k \<and> inputs ! k < int (length (adjoints t'))
             \<and> adjoints t' ! nat (inputs ! k) = stored ! k"
      if k: "c \<le> k" "k < length inputs" for k
    proof (cases "k = c")
      case True
      from iin ih_len have "?i < int (length (adjoints t'))" by linarith
      with keep gf(1) True show ?thesis by simp
    next
      case False
      with k have "c + 1 \<le> k" by simp
      from ih_k [OF this k(2)] show ?thesis .
    qed
    have frame: "adjoints t' ! q = adjoints t ! q"
      if q: "q < length (adjoints t)"
        and away: "\<And>k. c \<le> k \<Longrightarrow> k < length inputs \<Longrightarrow> inputs ! k \<noteq> int q" for q
    proof -
      from away [OF le_refl True] gf(1) have ne: "q \<noteq> nat ?i" by auto
      from q gf(4) have q1: "q < length (adjoints t1)" by simp
      have "inputs ! k \<noteq> int q" if "c + 1 \<le> k" "k < length inputs" for k
        using away [OF _ that(2)] that(1) by simp
      from ih_q [OF q1 this] gf(5) [OF q ne] show ?thesis by simp
    qed
    show ?thesis
    proof (intro conjI allI impI)
      show "length (adjoints t) \<le> length (adjoints t')" by (rule len)
    next
      fix k assume k: "c \<le> k" "k < length inputs"
      note m = main [OF k]
      from m show "0 \<le> inputs ! k" by simp
      from m show "inputs ! k < int (length (adjoints t'))" by simp
      from m show "adjoints t' ! nat (inputs ! k) = stored ! k" by simp
    next
      fix q assume q: "q < length (adjoints t)"
        and away: "\<forall>k. c \<le> k \<longrightarrow> k < length inputs \<longrightarrow> inputs ! k \<noteq> int q"
      show "adjoints t' ! q = adjoints t ! q"
        by (rule frame [OF q]) (use away in blast)
    qed
  qed
qed

lemma finish_restores_distinct_input_adjoints:
  assumes fin: "finish env True outputs h t mem = Inr (h', t', mem')"
    and act: "active t"
    and dist: "distinct (inputData h)"
    and i: "i \<in> set (inputData h)" "i < int (length (adjoints t))"
  shows "0 \<le> i \<and> i < int (length (adjoints t')) \<and> adjoints t' ! nat i = adjoints t ! nat i"
proof -
  let ?h1 = "addOutputRecursive mem outputs h"
  from fin act obtain h2 t1 h3 t2 mem2 where
    st: "storeInputAdjoints ?h1 t = Inr (h2, t1)"
    and pre: "doPreaccumulation env h2 t1 mem = Inr (h3, t2, mem2)"
    and re: "restoreInputAdjoints h3 t2 = Inr t'"
    by (auto simp: finish_def Let_def split: sum.splits prod.splits)
  from st obtain stored0 where
    lp: "storeInputAdjoints_loop (inputData h) 0 (stored0, t) = Inr (storedAdjoints h2, t1)"
    and h2: "inputData h2 = inputData h"
    by (auto simp: storeInputAdjoints_def Let_def addOutputRecursive_inputData
        simp del: storeInputAdjoints_loop.simps split: sum.splits prod.splits)
  from i(1) obtain k where k: "k < length (inputData h)" "inputData h ! k = i"
    by (auto simp: in_set_conv_nth)
  note sl = storeInputAdjoints_loop_result [OF lp dist, unfolded fst_conv snd_conv,
      THEN conjunct2, THEN conjunct2, rule_format, OF le0 k(1)]
  from sl k(2) i(2) have s: "0 \<le> i" "storedAdjoints h2 ! k = adjoints t ! nat i"
    by simp_all
  from doPreaccumulation_helper [OF pre] h2 have h3: "inputData h3 = inputData h"
    "storedAdjoints h3 = storedAdjoints h2" by simp_all
  from re h3 have rl: "restoreInputAdjoints_loop (inputData h) (storedAdjoints h2) 0 t2 = Inr t'"
    by (simp add: restoreInputAdjoints_def del: restoreInputAdjoints_loop.simps)
  note rr = restoreInputAdjoints_loop_result [OF rl dist, THEN conjunct2, THEN conjunct1,
      rule_format, OF le0 k(1)]
  from rr k(2) have "i < int (length (adjoints t'))" "adjoints t' ! nat i = storedAdjoints h2 ! k"
    by simp_all
  with s show ?thesis by simp
qed

text \<open>
  C9. When an identifier is declared twice as an input, \<open>finish\<close> with
  \<open>storeAdjoints = true\<close> does not give its adjoint back: the first round of
  \<open>storeInputAdjoints\<close> saves the adjoint and zeroes it, the second saves that zero,
  and \<open>restoreInputAdjoints\<close> writes the zero last. Whatever the Jacobian computation
  and the reset do in between, the adjoint of the identifier is 0 after \<open>finish\<close>.
\<close>

theorem finish_duplicate_input_loses_adjoint:
  assumes "finish env True outputs h t mem = Inr (h', t', mem')"
    and "active t"
    and "inputData h = [i, i]"
  shows "gradient_const t' i = Inr 0"
proof -
  let ?h1 = "addOutputRecursive mem outputs h"
  from assms(1,2) obtain h2 t1 h3 t2 mem2 where
    st: "storeInputAdjoints ?h1 t = Inr (h2, t1)"
    and pre: "doPreaccumulation env h2 t1 mem = Inr (h3, t2, mem2)"
    and re: "restoreInputAdjoints h3 t2 = Inr t'"
    by (auto simp: finish_def Let_def split: sum.splits prod.splits)
  from st assms(3) obtain stored0 where
    lp: "storeInputAdjoints_loop [i, i] 0 (stored0, t) = Inr (storedAdjoints h2, t1)"
    and h2: "inputData h2 = [i, i]"
    by (auto simp: storeInputAdjoints_def Let_def simp del: storeInputAdjoints_loop.simps
        split: sum.splits prod.splits)
  from storeInputAdjoints_twice [OF lp] have
    z: "storedAdjoints h2 ! 1 = 0" "1 < length (storedAdjoints h2)"
    by simp_all
  from doPreaccumulation_helper [OF pre] h2 have h3: "inputData h3 = [i, i]"
    "storedAdjoints h3 = storedAdjoints h2" by simp_all
  from re h3 have "restoreInputAdjoints_loop [i, i] (storedAdjoints h2) 0 t2 = Inr t'"
    by (simp add: restoreInputAdjoints_def)
  from restoreInputAdjoints_twice [OF this z(2)] z(1)
  show ?thesis
    by (simp add: gradient_const_def vectorGet_def)
qed

theorem finish_duplicate_input_loses_adjoint_witness:
  "gradient_const
     \<lparr>indexManager = \<lparr>policy = Reuse, largestAssignedIndex = 256, freeIndices = []\<rparr>,
      statementData = [], rhsIdentiferData = [], passiveValueData = [],
      constantValueData = [], adjoints = replicate 256 0 @ [5], primals = replicate 257 0,
      primalsCopy = [], active = True\<rparr> 256 = Inr 5
   \<and> (\<exists>h' t' mem'.
        finish \<lparr>computeJacobian = (\<lambda>startP endP inputs outputs J t. Inr (J, t)),
                internalResetPrimalValues = (\<lambda>pos t. Inr t),
                Base_resetTo = (\<lambda>pos t. Inr t)\<rparr>
          True [] (PreaccumulationHelper_new\<lparr>inputData := [256, 256]\<rparr>)
          \<lparr>indexManager = \<lparr>policy = Reuse, largestAssignedIndex = 256, freeIndices = []\<rparr>,
           statementData = [], rhsIdentiferData = [], passiveValueData = [],
           constantValueData = [], adjoints = replicate 256 0 @ [5], primals = replicate 257 0,
           primalsCopy = [], active = True\<rparr>
          (\<lambda>p. \<lparr>primalValue = 0, identifier = 0\<rparr>) = Inr (h', t', mem')
      \<and> gradient_const t' 256 = Inr 0)"
proof -
  let ?env = "\<lparr>computeJacobian = (\<lambda>startP endP inputs outputs J t. Inr (J, t)),
                internalResetPrimalValues = (\<lambda>pos t. Inr t),
                Base_resetTo = (\<lambda>pos t. Inr t)\<rparr>"
  let ?h = "PreaccumulationHelper_new\<lparr>inputData := [256, 256]\<rparr>"
  let ?t = "\<lparr>indexManager = \<lparr>policy = Reuse, largestAssignedIndex = 256, freeIndices = []\<rparr>,
      statementData = [], rhsIdentiferData = [], passiveValueData = [],
      constantValueData = [], adjoints = replicate 256 0 @ [5], primals = replicate 257 0,
      primalsCopy = [], active = True\<rparr>"
  let ?mem = "\<lambda>p::nat. \<lparr>primalValue = 0, identifier = 0\<rparr>"
  have before: "gradient_const ?t 256 = Inr 5"
    by (simp add: gradient_const_def vectorGet_def nth_append)
  have "\<exists>h' t' mem'. finish ?env True [] ?h ?t ?mem = Inr (h', t', mem')"
    by (simp add: finish_def storeInputAdjoints_def storeInputAdjoints_loop.simps
        restoreInputAdjoints_def restoreInputAdjoints_loop.simps doPreaccumulation_def
        doPreaccumulation_storeJacobian.simps PreaccumulationHelper_new_def gradientRead_def
        gradientAssign_def gradient_def checkAdjointSize_def vectorGet_def vectorSet_def
        vectorResize_def resetTo_def getM_def getN_def JacobianCountNonZerosRow_resize_def
        getPosition_def nth_append Let_def)
  then obtain h' t' mem' where
    run: "finish ?env True [] ?h ?t ?mem = Inr (h', t', mem')"
    by blast
  from finish_duplicate_input_loses_adjoint [OF run, of 256]
  have "gradient_const t' 256 = Inr 0"
    by simp
  with before run show ?thesis by blast
qed

end
